(* ===== verification/Prelude.thy ===== *)
theory Prelude
  imports Main "HOL-Library.Word" "HOL-Library.Char_ord" "HOL-Library.List_Lexorder"
    "HOL-Library.Sublist"
begin

text \<open>
  What the component theories share (strings and maps of Rust are in \<open>Rust_Str\<close> and \<open>Rust_Map\<close>).

  \<^item> Rust's \<open>Result\<close> as the datatype \<open>result\<close>.
  \<^item> Effects: an action takes a state and ends by returning, by a panic, or by being dropped at
    an await point; \<open>seqM\<close> sequences two actions, \<open>tryM\<close> is Rust's \<open>?\<close> operator.
  \<^item> What is proved of actions, each with one rule per way of composing them: \<open>keeps\<close> (a reflexive
    and transitive relation between the states before and after, however the action ends; the
    locale \<open>frame\<close>), \<open>returns\<close> (what a returned value satisfies), \<open>panic_free\<close>, and \<open>finishes\<close>
    (from a state that is ready the action returns).
\<close>

named_theorems frame_rules "preservation rules for actions, one per operation"
named_theorems panic_rules "operations that never panic"
named_theorems finish_rules "operations that return when nothing interrupts them"

section \<open>Results and actions\<close>

datatype ('e, 'a) result = Ok 'a | Err 'e

fun is_ok :: "('e, 'a) result \<Rightarrow> bool" where
  "is_ok (Ok _) = True"
| "is_ok (Err _) = False"

fun map_err :: "('e \<Rightarrow> 'f) \<Rightarrow> ('e, 'a) result \<Rightarrow> ('f, 'a) result" where
  "map_err f (Ok a) = Ok a"
| "map_err f (Err e) = Err (f e)"

fun bind_res :: "('e, 'a) result \<Rightarrow> ('a \<Rightarrow> ('e, 'b) result) \<Rightarrow> ('e, 'b) result" where
  "bind_res (Ok a) f = f a"
| "bind_res (Err e) f = Err e"

fun ok_or :: "'e \<Rightarrow> 'a option \<Rightarrow> ('e, 'a) result" where
  "ok_or e (Some a) = Ok a"
| "ok_or e None = Err e"

lemma map_err_Ok [simp]: "map_err f r = Ok a \<longleftrightarrow> r = Ok a"
  by (cases r) auto

lemma map_err_Err: "map_err f r = Err e \<longleftrightarrow> (\<exists>e'. r = Err e' \<and> e = f e')"
  by (cases r) auto

lemma bind_res_Ok: "bind_res r f = Ok b \<longleftrightarrow> (\<exists>a. r = Ok a \<and> f a = Ok b)"
  by (cases r) auto

lemma bind_res_Err: "bind_res r f = Err e \<longleftrightarrow> r = Err e \<or> (\<exists>a. r = Ok a \<and> f a = Err e)"
  by (cases r) auto

lemma ok_or_Ok [simp]: "ok_or e x = Ok a \<longleftrightarrow> x = Some a"
  by (cases x) auto

lemma ok_or_Err: "ok_or e x = Err e' \<longleftrightarrow> x = None \<and> e' = e"
  by (cases x) auto

lemmas result_inv = bind_res_Ok bind_res_Err ok_or_Err map_err_Err

lemma is_ok_bind_res: "is_ok (bind_res r f) \<Longrightarrow> is_ok r"
  by (cases r) auto

text \<open>
  How the evaluation of a Rust future or function can end: with a value (which may itself be an
  \<open>Err\<close>), with a panic, or because the future was dropped while it waited.
\<close>

datatype 'a exec = Done 'a | Panicked string | Dropped

type_synonym ('s, 'a) act = "'s \<Rightarrow> 'a exec \<times> 's"

definition retM :: "'a \<Rightarrow> ('s, 'a) act" where
  "retM a s = (Done a, s)"

definition panicM :: "string \<Rightarrow> ('s, 'a) act" where
  "panicM m s = (Panicked m, s)"

definition seqM :: "('s, 'a) act \<Rightarrow> ('a \<Rightarrow> ('s, 'b) act) \<Rightarrow> ('s, 'b) act" where
  "seqM m f s = (case m s of (Done a, s') \<Rightarrow> f a s'
                 | (Panicked p, s') \<Rightarrow> (Panicked p, s')
                 | (Dropped, s') \<Rightarrow> (Dropped, s'))"

text \<open>\<open>tryM m f\<close> is \<open>let x = m?; f(x)\<close>: an \<open>Err\<close> of \<open>m\<close> is returned at once.\<close>

definition tryM :: "('s, ('e, 'a) result) act \<Rightarrow> ('a \<Rightarrow> ('s, ('e, 'b) result) act)
    \<Rightarrow> ('s, ('e, 'b) result) act" where
  "tryM m f = seqM m (\<lambda>r. case r of Ok a \<Rightarrow> f a | Err e \<Rightarrow> retM (Err e))"

text \<open>A computation that does not touch the state, as an action.\<close>

definition liftM :: "('e, 'a) result \<Rightarrow> ('s, ('e, 'a) result) act" where
  "liftM r = retM r"

text \<open>An action on one component of a pair, with the other left alone.\<close>

definition onSnd :: "('s, 'a) act \<Rightarrow> ('t \<times> 's, 'a) act" where
  "onSnd m ts = (case m (snd ts) of (r, s') \<Rightarrow> (r, (fst ts, s')))"

lemma seqM_simps [simp]:
  "m s = (Done a, s') \<Longrightarrow> seqM m f s = f a s'"
  "m s = (Panicked p, s') \<Longrightarrow> seqM m f s = (Panicked p, s')"
  "m s = (Dropped, s') \<Longrightarrow> seqM m f s = (Dropped, s')"
  by (simp_all add: seqM_def)

lemma tryM_simps [simp]:
  "m s = (Done (Ok a), s') \<Longrightarrow> tryM m f s = f a s'"
  "m s = (Done (Err e), s') \<Longrightarrow> tryM m f s = (Done (Err e), s')"
  "m s = (Panicked p, s') \<Longrightarrow> tryM m f s = (Panicked p, s')"
  "m s = (Dropped, s') \<Longrightarrow> tryM m f s = (Dropped, s')"
  by (simp_all add: tryM_def retM_def)

lemma retM_seqM [simp]: "seqM (retM a) f = f a"
  by (simp add: fun_eq_iff seqM_def retM_def)

lemma liftM_tryM [simp]:
  "tryM (liftM (Ok a)) f = f a"
  "tryM (liftM (Err e)) f = retM (Err e)"
  by (simp_all add: tryM_def liftM_def)

lemma retM_apply: "retM a s = (Done a, s)"
  by (simp add: retM_def)

text \<open>Inversion: what a finished \<open>seqM\<close> or \<open>tryM\<close> says of its first action.\<close>

lemma seqM_DoneE:
  assumes "seqM m f s = (Done b, t)"
  obtains a s' where "m s = (Done a, s')" "f a s' = (Done b, t)"
  using assms by (auto simp: seqM_def split: prod.splits exec.splits)

lemma tryM_DoneE:
  assumes "tryM m f s = (Done r, t)"
  obtains (ok) a s' where "m s = (Done (Ok a), s')" "f a s' = (Done r, t)"
    | (err) e where "m s = (Done (Err e), t)" "r = Err e"
  using assms
  by (auto simp: tryM_def seqM_def retM_def split: prod.splits exec.splits result.splits)

subsection \<open>What every run of an action keeps\<close>

text \<open>
  \<open>keeps R m\<close>: whichever way \<open>m\<close> ends, the state it leaves is related by \<open>R\<close> to the one it
  started in. For a reflexive and transitive \<open>R\<close> this composes.
\<close>

definition keeps :: "('s \<Rightarrow> 's \<Rightarrow> bool) \<Rightarrow> ('s, 'a) act \<Rightarrow> bool" where
  "keeps R m \<longleftrightarrow> (\<forall>s. R s (snd (m s)))"

lemma keepsI: "(\<And>s. R s (snd (m s))) \<Longrightarrow> keeps R m"
  by (simp add: keeps_def)

lemma keeps_at: "keeps R m \<Longrightarrow> R s (snd (m s))"
  by (simp add: keeps_def)

lemma keepsD: "keeps R m \<Longrightarrow> m s = (r, t) \<Longrightarrow> R s t"
  by (metis keeps_def snd_conv)

locale frame =
  fixes R :: "'s \<Rightarrow> 's \<Rightarrow> bool"
  assumes frame_refl: "R s s"
    and frame_trans: "R s t \<Longrightarrow> R t u \<Longrightarrow> R s u"
begin

lemma keeps_retM [frame_rules]: "keeps R (retM a)"
  by (simp add: keeps_def retM_def frame_refl)

lemma keeps_liftM [frame_rules]: "keeps R (liftM r)"
  by (simp add: liftM_def keeps_retM)

lemma keeps_panicM [frame_rules]: "keeps R (panicM p)"
  by (simp add: keeps_def panicM_def frame_refl)

lemma keeps_seqM [frame_rules]:
  assumes "keeps R m" and "\<And>a. keeps R (f a)"
  shows "keeps R (seqM m f)"
proof (rule keepsI)
  fix s
  obtain r s' where m: "m s = (r, s')" by (cases "m s") auto
  with assms(1) have s': "R s s'" by (auto dest: keepsD)
  show "R s (snd (seqM m f s))"
  proof (cases r)
    case (Done a)
    obtain r2 t where f: "f a s' = (r2, t)" by (cases "f a s'") auto
    with assms(2) have "R s' t" by (auto dest: keepsD)
    with s' Done m f show ?thesis by (auto intro: frame_trans)
  qed (use m s' in auto)
qed

text \<open>The same when the second action is only known to keep \<open>R\<close> for what the first returns.\<close>

lemma keeps_seqM_returns:
  assumes "keeps R m" "\<And>s a t. m s = (Done a, t) \<Longrightarrow> P a" "\<And>a. P a \<Longrightarrow> keeps R (f a)"
  shows "keeps R (seqM m f)"
proof (rule keepsI)
  fix s
  obtain r s' where m: "m s = (r, s')" by (cases "m s") auto
  with assms(1) have s': "R s s'" by (auto dest: keepsD)
  show "R s (snd (seqM m f s))"
  proof (cases r)
    case (Done a)
    with assms(2,3) m have "R s' (snd (f a s'))" by (auto simp: keeps_def)
    with s' Done m show ?thesis by (auto intro: frame_trans)
  qed (use m s' in auto)
qed

lemma keeps_tryM [frame_rules]:
  assumes "keeps R m" and "\<And>a. keeps R (f a)"
  shows "keeps R (tryM m f)"
  unfolding tryM_def using assms
  by (auto intro!: keeps_seqM keeps_retM split: result.split)

end

subsection \<open>What an action returns\<close>

definition returns :: "('a \<Rightarrow> bool) \<Rightarrow> ('s, 'a) act \<Rightarrow> bool" where
  "returns P m \<longleftrightarrow> (\<forall>s a t. m s = (Done a, t) \<longrightarrow> P a)"

lemma returnsD: "returns P m \<Longrightarrow> m s = (Done a, t) \<Longrightarrow> P a"
  by (auto simp: returns_def)

lemma returns_retM: "P a \<Longrightarrow> returns P (retM a)"
  by (simp add: returns_def retM_def)

lemma returns_seqM: "(\<And>a. returns P (f a)) \<Longrightarrow> returns P (seqM m f)"
  by (auto simp: returns_def elim!: seqM_DoneE)

lemma returns_tryM:
  "(\<And>a. returns P (f a)) \<Longrightarrow> (\<And>e. P (Err e)) \<Longrightarrow> returns P (tryM m f)"
  by (auto simp: returns_def elim!: tryM_DoneE)

lemma returns_onSnd: "returns P m \<Longrightarrow> returns P (onSnd m)"
  by (auto simp: returns_def onSnd_def split: prod.splits)

subsection \<open>Actions that never panic\<close>

definition panic_free :: "('s, 'a) act \<Rightarrow> bool" where
  "panic_free m \<longleftrightarrow> (\<forall>s p. fst (m s) \<noteq> Panicked p)"

lemma panic_free_basic [panic_rules]:
  "panic_free (retM a)" "panic_free (liftM r)"
  by (simp_all add: panic_free_def retM_def liftM_def)

lemma panic_free_seqM [panic_rules]:
  assumes "panic_free m" "\<And>a. panic_free (f a)"
  shows "panic_free (seqM m f)"
  using assms by (auto simp: panic_free_def seqM_def split: prod.splits exec.splits) (metis fst_conv)+

lemma panic_free_tryM [panic_rules]:
  "panic_free m \<Longrightarrow> (\<And>a. panic_free (f a)) \<Longrightarrow> panic_free (tryM m f)"
  unfolding tryM_def by (intro panic_free_seqM) (auto simp: panic_free_basic split: result.split)

lemma panic_free_onSnd [panic_rules]: "panic_free m \<Longrightarrow> panic_free (onSnd m)"
  by (auto simp: panic_free_def onSnd_def split: prod.splits) (metis fst_conv)

lemma panic_freeD: "panic_free m \<Longrightarrow> m s \<noteq> (Panicked p, t)"
  by (metis panic_free_def fst_conv)

lemma keeps_onSnd:
  assumes "keeps R m" "\<And>a s t. R s t \<Longrightarrow> Q (a, s) (a, t)"
  shows "keeps Q (onSnd m)"
  using assms by (auto simp: keeps_def onSnd_def split: prod.splits) (metis snd_conv)

lemma onSnd_Done: "onSnd m (t, s) = (Done a, (t', s')) \<longleftrightarrow> t' = t \<and> m s = (Done a, s')"
  by (auto simp: onSnd_def split: prod.splits)

lemma onSnd_Done_iff: "onSnd m s = (Done a, t) \<longleftrightarrow> fst t = fst s \<and> m (snd s) = (Done a, snd t)"
  by (cases s; cases t) (simp add: onSnd_Done)

subsection \<open>Actions that return\<close>

text \<open>From every state that is \<open>ready\<close>, the action returns a value with \<open>P\<close> and a ready state.\<close>

definition finishes :: "('s \<Rightarrow> bool) \<Rightarrow> ('a \<Rightarrow> bool) \<Rightarrow> ('s, 'a) act \<Rightarrow> bool" where
  "finishes ready P m \<longleftrightarrow> (\<forall>s. ready s \<longrightarrow> (\<exists>a t. m s = (Done a, t) \<and> P a \<and> ready t))"

abbreviation any_value :: "'a \<Rightarrow> bool" where
  "any_value \<equiv> \<lambda>_. True"

lemma finishesE:
  assumes "finishes ready P m" "ready s"
  obtains a t where "m s = (Done a, t)" "P a" "ready t"
  using assms by (auto simp: finishes_def)

lemma finishesD: "finishes ready P m \<Longrightarrow> ready s \<Longrightarrow> m s = (Done a, t) \<Longrightarrow> P a \<and> ready t"
  by (auto simp: finishes_def)

lemma finishes_retM [finish_rules]: "P a \<Longrightarrow> finishes ready P (retM a)"
  by (simp add: finishes_def retM_def)

lemma finishes_liftM [finish_rules]: "P a \<Longrightarrow> finishes ready P (liftM a)"
  by (simp add: finishes_def liftM_def retM_def)

lemma finishes_seqM_post:
  assumes "finishes ready Q m" "\<And>a. Q a \<Longrightarrow> finishes ready P (f a)"
  shows "finishes ready P (seqM m f)"
  unfolding finishes_def
proof (intro allI impI)
  fix s assume "ready s"
  with assms(1) obtain a t where m: "m s = (Done a, t)" "Q a" "ready t" by (rule finishesE)
  from assms(2) [OF m(2)] m(3) obtain b u where "f a t = (Done b, u)" "P b" "ready u"
    by (rule finishesE)
  with m(1) show "\<exists>b u. seqM m f s = (Done b, u) \<and> P b \<and> ready u" by simp
qed

lemma finishes_seqM [finish_rules]:
  "finishes ready any_value m \<Longrightarrow> (\<And>a. finishes ready P (f a)) \<Longrightarrow> finishes ready P (seqM m f)"
  by (rule finishes_seqM_post)

lemma finishes_tryM [finish_rules]:
  "finishes ready any_value m \<Longrightarrow> (\<And>a. finishes ready P (f a)) \<Longrightarrow> (\<And>e. P (Err e)) \<Longrightarrow>
   finishes ready P (tryM m f)"
  unfolding tryM_def by (intro finishes_seqM) (auto intro: finishes_retM split: result.split)

end
