(* ===== verification/Rust_Str.thy ===== *)
theory Rust_Str
  imports Prelude
begin

text \<open>
  Rust strings. A \<open>str\<close> is the list of its UTF-8 bytes (a \<open>string\<close>; each \<open>char\<close> of HOL is one
  byte), so byte-wise operations of the code (prefix tests, splitting at an ASCII character,
  concatenation, ASCII case folding) are the list operations, and the operations that look at
  code points (\<open>trim\<close>, \<open>chars().count()\<close>, \<open>encode_utf16\<close>, \<open>String::from_utf8\<close>) decode first.
\<close>

type_synonym u64 = "64 word"

abbreviation NL :: char where "NL \<equiv> CHR 0x0A"
abbreviation CR :: char where "CR \<equiv> CHR 0x0D"
abbreviation QUOTE :: char where "QUOTE \<equiv> CHR 0x22"

definition byte :: "char \<Rightarrow> nat" where
  "byte c = of_char c"

lemma byte_less [simp]: "byte c < 256"
  by (simp add: byte_def)

lemma byte_inject [simp]: "byte c = byte d \<longleftrightarrow> c = d"
  by (simp add: byte_def)

lemma u64_of_nat_inject:
  assumes "m < 2 ^ 64" "n < 2 ^ 64"
  shows "(of_nat m :: u64) = of_nat n \<longleftrightarrow> m = n"
proof
  assume "(of_nat m :: u64) = of_nat n"
  then have "unat (of_nat m :: u64) = unat (of_nat n :: u64)" by simp
  with assms show "m = n" by (simp only: unat_of_nat) simp
qed simp

section \<open>Decimal numbers\<close>

text \<open>\<open>u64::to_string\<close> (and \<open>usize\<close> in a format string): decimal, no leading zeros.\<close>

definition digit :: "nat \<Rightarrow> char" where
  "digit n = char_of (48 + n)"

fun dec :: "nat \<Rightarrow> string" where
  "dec n = (if n < 10 then [digit n] else dec (n div 10) @ [digit (n mod 10)])"

declare dec.simps [simp del]

definition undec :: "string \<Rightarrow> nat" where
  "undec s = foldl (\<lambda>n c. 10 * n + (byte c - 48)) 0 s"

lemma byte_digit: "n < 10 \<Longrightarrow> byte (digit n) = 48 + n"
  by (simp add: byte_def digit_def)

lemma undec_dec [simp]: "undec (dec n) = n"
proof (induction n rule: dec.induct)
  case (1 n)
  show ?case
  proof (cases "n < 10")
    case True
    then show ?thesis by (subst dec.simps) (simp add: undec_def byte_digit)
  next
    case False
    with "1.IH" have "undec (dec (n div 10)) = n div 10" by simp
    with False show ?thesis
      by (subst dec.simps) (simp add: undec_def byte_digit)
  qed
qed

lemma dec_inject [simp]: "dec m = dec n \<longleftrightarrow> m = n"
  by (metis undec_dec)

lemma dec_digits: "c \<in> set (dec n) \<Longrightarrow> 48 \<le> byte c \<and> byte c < 58"
proof (induction n rule: dec.induct)
  case (1 n)
  show ?case
  proof (cases "n < 10")
    case True
    with "1.prems" show ?thesis
      by (subst (asm) dec.simps) (simp add: byte_digit)
  next
    case False
    with "1" show ?thesis
      by (subst (asm) (2) dec.simps) (auto simp: byte_digit)
  qed
qed

lemma dec_no_NL [simp]: "NL \<notin> set (dec n)"
  by (auto dest: dec_digits simp: byte_def)

lemma dec_not_Nil [simp]: "dec n \<noteq> []"
  by (subst dec.simps) simp

section \<open>Prefixes, splitting and joining\<close>

text \<open>\<open>str::strip_prefix\<close> and \<open>str::starts_with\<close>.\<close>

fun strip_prefix :: "string \<Rightarrow> string \<Rightarrow> string option" where
  "strip_prefix [] s = Some s"
| "strip_prefix (p # ps) [] = None"
| "strip_prefix (p # ps) (c # cs) = (if p = c then strip_prefix ps cs else None)"

definition starts_with :: "string \<Rightarrow> string \<Rightarrow> bool" where
  "starts_with p s \<longleftrightarrow> strip_prefix p s \<noteq> None"

lemma strip_prefix_append [simp]: "strip_prefix p (p @ s) = Some s"
  by (induction p) auto

lemma strip_prefix_Some: "strip_prefix p s = Some t \<longleftrightarrow> s = p @ t"
  by (induction p s rule: strip_prefix.induct) auto

lemma starts_with_prefix: "starts_with p s \<longleftrightarrow> prefix p s"
  by (auto simp: starts_with_def strip_prefix_Some prefix_def)

text \<open>\<open>str::split\<close> at an ASCII character; \<open>rsplit\<close> yields the same pieces from the end.\<close>

fun split_on :: "char \<Rightarrow> string \<Rightarrow> string list" where
  "split_on d [] = [[]]"
| "split_on d (c # cs) =
     (if c = d then [] # split_on d cs
      else (case split_on d cs of [] \<Rightarrow> [[c]] | p # ps \<Rightarrow> (c # p) # ps))"

definition rsplit_on :: "char \<Rightarrow> string \<Rightarrow> string list" where
  "rsplit_on d s = rev (split_on d s)"

lemma split_on_not_Nil [simp]: "split_on d s \<noteq> []"
  by (induction s) (auto split: list.split)

lemma split_on_no_sep: "d \<notin> set s \<Longrightarrow> split_on d s = [s]"
  by (induction s) auto

lemma split_on_append: "split_on d (s @ d # t) = split_on d s @ split_on d t"
  by (induction s) (auto split: list.split)

lemma rsplit_on_last: "d \<notin> set t \<Longrightarrow> rsplit_on d (s @ d # t) = t # rsplit_on d s"
  by (simp add: rsplit_on_def split_on_append split_on_no_sep)

lemma rsplit_on_not_Nil [simp]: "rsplit_on d s \<noteq> []"
  by (simp add: rsplit_on_def)

text \<open>\<open>[&str]::join\<close>.\<close>

fun join :: "string \<Rightarrow> string list \<Rightarrow> string" where
  "join sep [] = []"
| "join sep [s] = s"
| "join sep (s # t # ts) = s @ sep @ join sep (t # ts)"

text \<open>\<open>str::trim_end_matches\<close> with a character.\<close>

definition trim_end_matches :: "char \<Rightarrow> string \<Rightarrow> string" where
  "trim_end_matches d s = rev (dropWhile (\<lambda>c. c = d) (rev s))"

lemma trim_end_matches_last:
  "trim_end_matches d s \<noteq> [] \<Longrightarrow> last (trim_end_matches d s) \<noteq> d"
proof -
  assume ne: "trim_end_matches d s \<noteq> []"
  then have ne': "dropWhile (\<lambda>c. c = d) (rev s) \<noteq> []"
    by (simp add: trim_end_matches_def)
  from hd_dropWhile [OF ne'] show ?thesis
    by (simp add: trim_end_matches_def last_rev)
qed

lemma trim_end_matches_idem: "trim_end_matches d (trim_end_matches d s) = trim_end_matches d s"
  by (simp add: trim_end_matches_def dropWhile_idem)

text \<open>\<open>str::eq_ignore_ascii_case\<close>.\<close>

definition ascii_lower :: "char \<Rightarrow> char" where
  "ascii_lower c = (if 65 \<le> byte c \<and> byte c \<le> 90 then char_of (byte c + 32) else c)"

definition eq_ignore_ascii_case :: "string \<Rightarrow> string \<Rightarrow> bool" where
  "eq_ignore_ascii_case s t \<longleftrightarrow> map ascii_lower s = map ascii_lower t"

lemma eq_ignore_ascii_case_refl [simp]: "eq_ignore_ascii_case s s"
  by (simp add: eq_ignore_ascii_case_def)

section \<open>Texts with a separator\<close>

lemma sep_first:
  "d \<notin> set a \<Longrightarrow> d \<notin> set b \<Longrightarrow> a @ d # x = b @ d # y \<longleftrightarrow> a = b \<and> x = y"
proof (induction a arbitrary: b)
  case Nil
  then show ?case by (cases b) auto
next
  case (Cons c a)
  then show ?case by (cases b) auto
qed

lemma sep_last:
  "d \<notin> set a \<Longrightarrow> d \<notin> set b \<Longrightarrow> x @ d # a = y @ d # b \<longleftrightarrow> x = y \<and> a = b"
  using sep_first [of d "rev a" "rev b" "rev x" "rev y"]
  by (metis append_Cons append_Nil append_assoc rev.simps(2) rev_append rev_rev_ident set_rev)

section \<open>Trimming\<close>

text \<open>
  The UTF-8 encodings of the characters with the Unicode property White\_Space: \<open>str::trim\<close>
  removes them at both ends. On a valid UTF-8 string, removing one of these byte sequences is
  removing one such character.
\<close>

definition white_space :: "string list" where
  "white_space = map (map char_of)
     ([[9], [10], [11], [12], [13], [32], [194, 133], [194, 160], [225, 154, 128]]
      @ map (\<lambda>b. [226, 128, b]) [128..<139]
      @ [[226, 128, 168], [226, 128, 169], [226, 128, 175], [226, 129, 159], [227, 128, 128 :: nat]])"

function strip_seqs :: "string list \<Rightarrow> string \<Rightarrow> string" where
  "strip_seqs ps s =
     (case find (\<lambda>p. p \<noteq> [] \<and> prefix p s) ps of
        None \<Rightarrow> s
      | Some p \<Rightarrow> strip_seqs ps (drop (length p) s))"
  by pat_completeness auto
termination
proof (relation "measure (\<lambda>(ps, s). length s)", goal_cases)
  case (2 ps s p)
  then have "p \<noteq> [] \<and> prefix p s" by (auto simp: find_Some_iff)
  then have "0 < length p" "length p \<le> length s" by (auto simp: prefix_length_le)
  then have "length s - length p < length s" by linarith
  then show ?case by simp
qed simp

declare strip_seqs.simps [simp del]

definition trim_start :: "string \<Rightarrow> string" where
  "trim_start s = strip_seqs white_space s"

definition trim_end :: "string \<Rightarrow> string" where
  "trim_end s = rev (strip_seqs (map rev white_space) (rev s))"

definition trim :: "string \<Rightarrow> string" where
  "trim s = trim_end (trim_start s)"

definition graphic :: "char \<Rightarrow> bool" where
  "graphic c \<longleftrightarrow> 33 \<le> byte c \<and> byte c < 127"

lemma strip_seqs_none:
  assumes "\<And>p. p \<in> set ps \<Longrightarrow> p = [] \<or> \<not> prefix p s"
  shows "strip_seqs ps s = s"
proof -
  have "find (\<lambda>p. p \<noteq> [] \<and> prefix p s) ps = None"
    using assms by (auto simp: find_None_iff)
  then show ?thesis by (subst strip_seqs.simps) simp
qed

lemma white_space_hd: "p \<in> set white_space \<Longrightarrow> \<not> graphic (hd p)"
  by (auto simp: white_space_def graphic_def byte_def)

lemma white_space_last: "p \<in> set white_space \<Longrightarrow> p \<noteq> [] \<and> \<not> graphic (last p)"
  by (auto simp: white_space_def graphic_def byte_def)

lemma trim_start_graphic [simp]: "graphic c \<Longrightarrow> trim_start (c # s) = c # s"
  unfolding trim_start_def
  by (rule strip_seqs_none) (metis white_space_hd Cons_prefix_Cons list.sel(1) neq_Nil_conv)

lemma trim_end_graphic [simp]: "graphic c \<Longrightarrow> trim_end (s @ [c]) = s @ [c]"
proof -
  assume c: "graphic c"
  have "strip_seqs (map rev white_space) (c # rev s) = c # rev s"
  proof (rule strip_seqs_none)
    fix p assume "p \<in> set (map rev white_space)"
    then obtain q where q: "q \<in> set white_space" "p = rev q" by auto
    with white_space_last have "hd p \<noteq> c" using c by (metis hd_rev)
    then show "p = [] \<or> \<not> prefix p (c # rev s)"
      by (metis Cons_prefix_Cons list.sel(1) neq_Nil_conv)
  qed
  then show ?thesis by (simp add: trim_end_def)
qed

text \<open>A string that begins and ends with a visible ASCII character is its own \<open>trim\<close>.\<close>

lemma trim_graphic:
  assumes "s \<noteq> []" "graphic (hd s)" "graphic (last s)"
  shows "trim s = s"
proof -
  have "trim_start s = s" using assms(1,2) by (cases s) auto
  moreover have "trim_end s = s" using assms(1,3) trim_end_graphic [of "last s" "butlast s"]
    by simp
  ultimately show ?thesis by (simp add: trim_def)
qed

text \<open>A line as it is typed: the line's end is trimmed away.\<close>

lemma find_line_end:
  "find (\<lambda>p. p \<noteq> [] \<and> prefix p (NL # s)) white_space = Some [NL]"
  "find (\<lambda>p. p \<noteq> [] \<and> prefix p (NL # s)) (map rev white_space) = Some [NL]"
  by (simp_all add: white_space_def char_of_eq_iff)

lemma trim_blank_line: "trim [NL] = []"
proof -
  have "strip_seqs white_space [NL] = []"
    by (subst strip_seqs.simps) (simp add: find_line_end strip_seqs_none)
  then show ?thesis by (simp add: trim_def trim_start_def trim_end_def strip_seqs_none)
qed

lemma trim_line:
  assumes "s \<noteq> []" "graphic (hd s)" "graphic (last s)"
  shows "trim (s @ [NL]) = s"
proof -
  have "rev (strip_seqs (map rev white_space) (rev s)) = s"
    using trim_end_graphic [OF assms(3), of "butlast s"] assms(1) by (simp add: trim_end_def)
  moreover have "strip_seqs (map rev white_space) (NL # rev s) = strip_seqs (map rev white_space) (rev s)"
    by (subst strip_seqs.simps) (simp add: find_line_end)
  ultimately have "trim_end (s @ [NL]) = s" by (simp add: trim_end_def)
  moreover have "trim_start (s @ [NL]) = s @ [NL]"
    using trim_start_graphic [OF assms(2), of "tl s @ [NL]"] assms(1) by (cases s) simp_all
  ultimately show ?thesis by (simp add: trim_def)
qed

text \<open>A string that ends with a visible ASCII character is not blank.\<close>

lemma strip_seqs_last:
  assumes "\<forall>p \<in> set ps. p \<noteq> [] \<longrightarrow> \<not> graphic (last p)" "s \<noteq> []" "graphic (last s)"
  shows "strip_seqs ps s \<noteq> [] \<and> last (strip_seqs ps s) = last s"
  using assms
proof (induction ps s rule: strip_seqs.induct)
  case (1 ps s)
  show ?case
  proof (cases "find (\<lambda>p. p \<noteq> [] \<and> prefix p s) ps")
    case None
    with 1 show ?thesis by (subst (1 2) strip_seqs.simps) simp
  next
    case (Some p)
    then have p: "p \<noteq> []" "prefix p s" "p \<in> set ps" by (auto simp: find_Some_iff)
    then obtain t where t: "s = p @ t" by (auto simp: prefix_def)
    with p 1 have "t \<noteq> []" by auto
    with 1 Some t show ?thesis by (subst (1 2) strip_seqs.simps) simp
  qed
qed

lemma trim_last_graphic:
  assumes "s \<noteq> []" "graphic (last s)"
  shows "trim s \<noteq> []"
proof -
  have "trim_start s \<noteq> [] \<and> last (trim_start s) = last s"
    unfolding trim_start_def
    by (rule strip_seqs_last) (use assms white_space_last in auto)
  then have "trim_end (trim_start s) = trim_start s" "trim_start s \<noteq> []"
    using trim_end_graphic [of "last s" "butlast (trim_start s)"] assms(2)
    by (metis append_butlast_last_id)+
  then show ?thesis by (simp add: trim_def)
qed

lemma trim_Nil [simp]: "trim [] = []"
proof -
  have "strip_seqs ps [] = []" for ps
    by (rule strip_seqs_none) auto
  then show ?thesis by (simp add: trim_def trim_start_def trim_end_def)
qed

section \<open>UTF-8 and UTF-16\<close>

definition cont_byte :: "nat \<Rightarrow> bool" where
  "cont_byte b \<longleftrightarrow> 128 \<le> b \<and> b < 192"

definition surrogate :: "nat \<Rightarrow> bool" where
  "surrogate v \<longleftrightarrow> 55296 \<le> v \<and> v < 57344"

definition scalar :: "nat \<Rightarrow> bool" where
  "scalar v \<longleftrightarrow> v < 1114112 \<and> \<not> surrogate v"

text \<open>
  \<open>String::from_utf8\<close>: the code points of a byte sequence, \<open>None\<close> if it is not well-formed
  UTF-8 (a stray or missing continuation byte, an overlong form, a surrogate, a value past
  U+10FFFF).
\<close>

fun utf8_decode :: "nat list \<Rightarrow> nat list option" where
  "utf8_decode [] = Some []"
| "utf8_decode (a # bs) =
     (if a < 128 then map_option (Cons a) (utf8_decode bs)
      else if 194 \<le> a \<and> a < 224 then
        (case bs of
           b # r \<Rightarrow> if cont_byte b
             then map_option (Cons ((a - 192) * 64 + (b - 128))) (utf8_decode r) else None
         | _ \<Rightarrow> None)
      else if 224 \<le> a \<and> a < 240 then
        (case bs of
           b # c # r \<Rightarrow>
             (let v = (a - 224) * 4096 + (b - 128) * 64 + (c - 128)
              in if cont_byte b \<and> cont_byte c \<and> 2048 \<le> v \<and> \<not> surrogate v
                 then map_option (Cons v) (utf8_decode r) else None)
         | _ \<Rightarrow> None)
      else if 240 \<le> a \<and> a < 245 then
        (case bs of
           b # c # d # r \<Rightarrow>
             (let v = (a - 240) * 262144 + (b - 128) * 4096 + (c - 128) * 64 + (d - 128)
              in if cont_byte b \<and> cont_byte c \<and> cont_byte d \<and> 65536 \<le> v \<and> v < 1114112
                 then map_option (Cons v) (utf8_decode r) else None)
         | _ \<Rightarrow> None)
      else None)"

definition str_chars :: "string \<Rightarrow> nat list option" where
  "str_chars s = utf8_decode (map byte s)"

definition utf8_valid :: "string \<Rightarrow> bool" where
  "utf8_valid s \<longleftrightarrow> str_chars s \<noteq> None"

lemma str_chars_ascii: "\<forall>c \<in> set s. byte c < 128 \<Longrightarrow> str_chars s = Some (map byte s)"
  unfolding str_chars_def by (induction s) auto

lemma utf8_valid_ascii: "\<forall>c \<in> set s. byte c < 128 \<Longrightarrow> utf8_valid s"
  by (simp add: utf8_valid_def str_chars_ascii)

lemma utf8_decode_append:
  "utf8_decode bs = Some vs \<Longrightarrow> utf8_decode (bs @ cs) = map_option ((@) vs) (utf8_decode cs)"
proof (induction bs arbitrary: vs rule: utf8_decode.induct)
  case 1
  then show ?case by (simp add: option.map_id0 [unfolded id_def])
next
  case (2 a bs)
  have push: "(@) (v # us) = (\<lambda>b. v # us @ b)" for v and us :: "nat list"
    by (simp add: fun_eq_iff)
  show ?case
  proof (cases "a < 128")
    case True
    with "2.prems" obtain us where "utf8_decode bs = Some us" "vs = a # us" by auto
    with True "2.IH"(1) show ?thesis by (simp add: push option.map_comp o_def)
  next
    case a1: False
    show ?thesis
    proof (cases "194 \<le> a \<and> a < 224")
      case True
      with a1 "2.prems" obtain b r us where d: "bs = b # r" "cont_byte b" "utf8_decode r = Some us"
        "vs = ((a - 192) * 64 + (b - 128)) # us"
        by (auto split: list.splits if_splits)
      from "2.IH"(2) [OF a1 True d(1,2,3)] a1 True d show ?thesis
        by (simp add: push option.map_comp o_def)
    next
      case a2: False
      show ?thesis
      proof (cases "224 \<le> a \<and> a < 240")
        case True
        with a1 a2 "2.prems" obtain b c r us where d: "bs = b # c # r"
          "cont_byte b \<and> cont_byte c \<and> 2048 \<le> (a - 224) * 4096 + (b - 128) * 64 + (c - 128)
             \<and> \<not> surrogate ((a - 224) * 4096 + (b - 128) * 64 + (c - 128))"
          "utf8_decode r = Some us" "vs = ((a - 224) * 4096 + (b - 128) * 64 + (c - 128)) # us"
          by (auto simp: Let_def split: list.splits if_splits)
        from "2.IH"(3) [OF a1 a2 True d(1) refl refl d(2,3)] a1 a2 True d show ?thesis
          by (simp add: push option.map_comp o_def)
      next
        case a3: False
        with a1 a2 "2.prems" obtain b c e r us where d: "240 \<le> a \<and> a < 245" "bs = b # c # e # r"
          "cont_byte b \<and> cont_byte c \<and> cont_byte e
             \<and> 65536 \<le> (a - 240) * 262144 + (b - 128) * 4096 + (c - 128) * 64 + (e - 128)
             \<and> (a - 240) * 262144 + (b - 128) * 4096 + (c - 128) * 64 + (e - 128) < 1114112"
          "utf8_decode r = Some us"
          "vs = ((a - 240) * 262144 + (b - 128) * 4096 + (c - 128) * 64 + (e - 128)) # us"
          by (auto simp: Let_def split: list.splits if_splits)
        from "2.IH"(4) [OF a1 a2 a3 d(1,2) refl refl refl d(3,4)] a1 a2 a3 d show ?thesis
          by (simp add: push option.map_comp o_def)
      qed
    qed
  qed
qed

lemma str_chars_quoted:
  assumes "str_chars s = Some vs" "byte q < 128"
  shows "str_chars (q # s @ [q]) = Some (byte q # vs @ [byte q])"
  using utf8_decode_append [of "map byte s" vs "[byte q]"] assms by (simp add: str_chars_def)

lemma utf8_scalars:
  "a < 128 \<Longrightarrow> scalar a"
  "a < 224 \<Longrightarrow> cont_byte b \<Longrightarrow> scalar ((a - 192) * 64 + (b - 128))"
  "a < 240 \<Longrightarrow> cont_byte b \<Longrightarrow> cont_byte c \<Longrightarrow>
     \<not> surrogate ((a - 224) * 4096 + (b - 128) * 64 + (c - 128)) \<Longrightarrow>
     scalar ((a - 224) * 4096 + (b - 128) * 64 + (c - 128))"
  "65536 \<le> v \<Longrightarrow> v < 1114112 \<Longrightarrow> scalar v"
  by (auto simp: scalar_def surrogate_def cont_byte_def)

lemma utf8_decode_scalar: "utf8_decode bs = Some vs \<Longrightarrow> \<forall>v \<in> set vs. scalar v"
proof (induction bs arbitrary: vs rule: utf8_decode.induct)
  case (2 a bs)
  show ?case
  proof (cases "a < 128")
    case True
    with "2.prems" "2.IH"(1) show ?thesis by (auto simp: utf8_scalars)
  next
    case a1: False
    show ?thesis
    proof (cases "194 \<le> a \<and> a < 224")
      case True
      with a1 "2.prems" "2.IH"(2) show ?thesis
        by (fastforce simp: utf8_scalars split: list.splits if_splits)
    next
      case a2: False
      show ?thesis
      proof (cases "224 \<le> a \<and> a < 240")
        case True
        with a1 a2 "2.prems" "2.IH"(3) show ?thesis
          by (fastforce simp: utf8_scalars Let_def split: list.splits if_splits)
      next
        case False
        with a1 a2 "2.prems" "2.IH"(4) show ?thesis
          by (fastforce simp: utf8_scalars Let_def split: list.splits if_splits)
      qed
    qed
  qed
qed simp

text \<open>\<open>s.chars().count()\<close> of a string, which is valid UTF-8 by its type.\<close>

definition char_count :: "string \<Rightarrow> nat" where
  "char_count s = length (filter (\<lambda>c. \<not> cont_byte (byte c)) s)"

text \<open>\<open>str::encode_utf16\<close> on code points, and its inverse.\<close>

fun utf16_units :: "nat list \<Rightarrow> 16 word list" where
  "utf16_units [] = []"
| "utf16_units (v # vs) =
     (if v < 65536 then of_nat v # utf16_units vs
      else of_nat (55296 + (v - 65536) div 1024) # of_nat (56320 + (v - 65536) mod 1024)
           # utf16_units vs)"

fun utf16_decode :: "16 word list \<Rightarrow> nat list option" where
  "utf16_decode [] = Some []"
| "utf16_decode (u # us) =
     (if \<not> surrogate (unat u) then map_option (Cons (unat u)) (utf16_decode us)
      else if unat u < 56320 then
        (case us of
           l # r \<Rightarrow> if 56320 \<le> unat l \<and> unat l < 57344
             then map_option (Cons (65536 + (unat u - 55296) * 1024 + (unat l - 56320)))
                    (utf16_decode r) else None
         | [] \<Rightarrow> None)
      else None)"

lemma utf16_roundtrip: "\<forall>v \<in> set vs. scalar v \<Longrightarrow> utf16_decode (utf16_units vs) = Some vs"
proof (induction vs)
  case (Cons v vs)
  then have v: "scalar v" and IH: "utf16_decode (utf16_units vs) = Some vs" by auto
  show ?case
  proof (cases "v < 65536")
    case True
    then have "unat (of_nat v :: 16 word) = v"
      by (simp add: unat_of_nat)
    with True v IH show ?thesis by (simp add: scalar_def)
  next
    case False
    let ?h = "(v - 65536) div 1024" and ?l = "(v - 65536) mod 1024"
    from False v have h: "?h < 1024" and l: "?l < 1024" by (auto simp: scalar_def)
    then have "unat (of_nat (55296 + ?h) :: 16 word) = 55296 + ?h"
      and "unat (of_nat (56320 + ?l) :: 16 word) = 56320 + ?l"
      by (simp_all only: unat_of_nat) simp_all
    moreover have "65536 + ?h * 1024 + ?l = v" using False by simp
    ultimately show ?thesis using False IH h l by (simp add: surrogate_def)
  qed
qed simp

text \<open>\<open>u16::to_le_bytes\<close>.\<close>

definition to_le_bytes :: "16 word \<Rightarrow> string" where
  "to_le_bytes u = [char_of (unat u mod 256), char_of (unat u div 256)]"

fun of_le_bytes :: "string \<Rightarrow> 16 word list option" where
  "of_le_bytes [] = Some []"
| "of_le_bytes [c] = None"
| "of_le_bytes (c # d # r) = map_option (Cons (of_nat (byte c + 256 * byte d))) (of_le_bytes r)"

lemma le_bytes_roundtrip: "of_le_bytes (concat (map to_le_bytes us)) = Some us"
proof (induction us)
  case (Cons u us)
  have "unat u < 2 ^ LENGTH(16)" by (rule unsigned_less)
  then have "unat u div 256 < 256" by simp
  then have "byte (char_of (unat u mod 256)) + 256 * byte (char_of (unat u div 256)) = unat u"
    by (simp add: byte_def)
  with Cons show ?case by (simp add: to_le_bytes_def)
qed simp

section \<open>Lines of a file\<close>

text \<open>
  \<open>BufRead::lines\<close>: the pieces between newlines, without a final empty piece; a carriage return
  right before a newline goes with it.
\<close>

fun cut_lines :: "string \<Rightarrow> string list \<times> string" where
  "cut_lines [] = ([], [])"
| "cut_lines (c # cs) =
     (case cut_lines cs of (ls, r) \<Rightarrow>
        if c = NL then ([] # ls, r)
        else (case ls of [] \<Rightarrow> ([], c # r) | l # ls' \<Rightarrow> ((c # l) # ls', r)))"

definition drop_cr :: "string \<Rightarrow> string" where
  "drop_cr l = (if l \<noteq> [] \<and> last l = CR then butlast l else l)"

definition buf_lines :: "string \<Rightarrow> string list" where
  "buf_lines s = (case cut_lines s of (ls, r) \<Rightarrow> map drop_cr ls @ (if r = [] then [] else [r]))"

lemma cut_lines_no_NL: "NL \<notin> set l \<Longrightarrow> cut_lines l = ([], l)"
  by (induction l) auto

lemma cut_lines_line: "NL \<notin> set l \<Longrightarrow> cut_lines (l @ NL # s) = (l # fst (cut_lines s), snd (cut_lines s))"
  by (induction l) (auto split: prod.splits)

lemma buf_lines_Nil [simp]: "buf_lines [] = []"
  by (simp add: buf_lines_def)

lemma buf_lines_line: "NL \<notin> set l \<Longrightarrow> buf_lines (l @ NL # s) = drop_cr l # buf_lines s"
  by (simp add: buf_lines_def cut_lines_line split: prod.splits)

lemma buf_lines_last: "NL \<notin> set l \<Longrightarrow> l \<noteq> [] \<Longrightarrow> buf_lines l = [l]"
  by (simp add: buf_lines_def cut_lines_no_NL)

text \<open>A file of whole lines, each ended by a newline as \<open>writeln!\<close> writes it.\<close>

definition unlines :: "string list \<Rightarrow> string" where
  "unlines ls = concat (map (\<lambda>l. l @ [NL]) ls)"

lemma unlines_simps [simp]:
  "unlines [] = []" "unlines (l # ls) = l @ NL # unlines ls"
  "unlines (ls @ ks) = unlines ls @ unlines ks"
  by (simp_all add: unlines_def)

text \<open>
  A line whose bytes are no control characters and that begins and ends with a visible ASCII
  character.
\<close>

definition clean_line :: "string \<Rightarrow> bool" where
  "clean_line l \<longleftrightarrow> (\<forall>c \<in> set l. 32 \<le> byte c) \<and> utf8_valid l
     \<and> l \<noteq> [] \<and> graphic (hd l) \<and> graphic (last l)"

lemma clean_line_trim: "clean_line l \<Longrightarrow> trim l = l"
  by (simp add: clean_line_def trim_graphic)

lemma clean_line_no_NL: "clean_line l \<Longrightarrow> NL \<notin> set l"
  by (auto simp: clean_line_def byte_def)

lemma clean_line_drop_cr:
  assumes "clean_line l"
  shows "drop_cr l = l"
proof -
  from assms have "CR \<notin> set l" by (auto simp: clean_line_def byte_def)
  then show ?thesis unfolding drop_cr_def by (metis last_in_set)
qed

lemma clean_line_not_Nil: "clean_line l \<Longrightarrow> l \<noteq> []"
  by (auto simp: clean_line_def)

lemma clean_line_valid: "clean_line l \<Longrightarrow> utf8_valid l"
  by (simp add: clean_line_def)

lemmas clean_lineD = clean_line_no_NL clean_line_drop_cr clean_line_not_Nil

lemma buf_lines_unlines_append:
  "\<forall>l \<in> set ls. clean_line l \<Longrightarrow> buf_lines (unlines ls @ s) = ls @ buf_lines s"
  by (induction ls) (auto simp: buf_lines_line clean_lineD)

lemma buf_lines_unlines: "\<forall>l \<in> set ls. clean_line l \<Longrightarrow> buf_lines (unlines ls) = ls"
  using buf_lines_unlines_append [of ls "[]"] by simp

end
