(* ===== verification/Rust_Map.thy ===== *)
theory Rust_Map
  imports Rust_Str
begin

text \<open>
  \<open>std::collections::BTreeMap\<close>: an association list whose keys ascend strictly, so that the list
  itself is the map's iteration order (for \<open>String\<close> keys, the lexicographic order of the bytes).
  The laws the agent relies on are the locale \<open>btree_map\<close>; collecting pairs into a map
  (\<open>FromIterator\<close>, serde's map visitor), where the last of two equal keys wins, is proved from
  them once.
\<close>

fun bt_insert :: "'k::linorder \<Rightarrow> 'v \<Rightarrow> ('k \<times> 'v) list \<Rightarrow> ('k \<times> 'v) list" where
  "bt_insert k v [] = [(k, v)]"
| "bt_insert k v ((j, u) # m) =
     (if k < j then (k, v) # (j, u) # m
      else if k = j then (k, v) # m
      else (j, u) # bt_insert k v m)"

definition bt_of_list :: "('k::linorder \<times> 'v) list \<Rightarrow> ('k \<times> 'v) list" where
  "bt_of_list kvs = foldl (\<lambda>m kv. bt_insert (fst kv) (snd kv) m) [] kvs"

definition bt_ok :: "('k::linorder \<times> 'v) list \<Rightarrow> bool" where
  "bt_ok m \<longleftrightarrow> sorted_wrt (<) (map fst m)"

lemma set_bt_insert: "fst ` set (bt_insert k v m) = insert k (fst ` set m)"
  by (induction k v m rule: bt_insert.induct) (simp_all add: insert_commute)

lemma bt_ok_insert: "bt_ok m \<Longrightarrow> bt_ok (bt_insert k v m)"
  unfolding bt_ok_def
proof (induction m)
  case (Cons ju m)
  obtain j u where [simp]: "ju = (j, u)" by (cases ju)
  have "x \<in> fst ` set (bt_insert k v m) \<Longrightarrow> x = k \<or> x \<in> fst ` set m" for x
    by (auto simp: set_bt_insert)
  with Cons show ?case by (fastforce simp flip: set_map)
qed simp

lemma map_of_bt_insert: "bt_ok m \<Longrightarrow> map_of (bt_insert k v m) j = (if j = k then Some v else map_of m j)"
  unfolding bt_ok_def
proof (induction m)
  case (Cons iu m)
  obtain i u where [simp]: "iu = (i, u)" by (cases iu)
  have "i < k \<Longrightarrow> k < i \<Longrightarrow> False" by simp
  with Cons show ?case by auto
qed simp

section \<open>The interface\<close>

locale btree_map =
  fixes empty :: "'m"
    and ins :: "'k \<Rightarrow> 'v \<Rightarrow> 'm \<Rightarrow> 'm"
    and lkp :: "'m \<Rightarrow> 'k \<Rightarrow> 'v option"
    and ok :: "'m \<Rightarrow> bool"
  assumes lkp_empty: "lkp empty j = None"
    and ok_empty: "ok empty"
    and lkp_ins: "ok m \<Longrightarrow> lkp (ins k v m) j = (if j = k then Some v else lkp m j)"
    and ok_ins: "ok m \<Longrightarrow> ok (ins k v m)"
begin

lemma ok_collect: "ok m \<Longrightarrow> ok (foldl (\<lambda>m kv. ins (fst kv) (snd kv) m) m kvs)"
  by (induction kvs arbitrary: m) (auto simp: ok_ins)

lemma lkp_collect_from:
  "ok m \<Longrightarrow> lkp (foldl (\<lambda>m kv. ins (fst kv) (snd kv) m) m kvs) j =
     (case map_of (rev kvs) j of Some v \<Rightarrow> Some v | None \<Rightarrow> lkp m j)"
proof (induction kvs arbitrary: m)
  case (Cons kv kvs)
  then show ?case
    by (auto simp: ok_ins lkp_ins map_add_def split: option.split)
qed simp

lemma lkp_collect:
  "lkp (foldl (\<lambda>m kv. ins (fst kv) (snd kv) m) empty kvs) j = map_of (rev kvs) j"
  by (simp add: lkp_collect_from ok_empty lkp_empty split: option.split)

end

interpretation bt: btree_map "[]" bt_insert map_of bt_ok
  by unfold_locales (auto simp: map_of_bt_insert bt_ok_insert, simp add: bt_ok_def)

section \<open>Facts of the concrete map\<close>

lemma bt_ok_of_list: "bt_ok (bt_of_list kvs)"
  unfolding bt_of_list_def by (rule bt.ok_collect) (rule bt.ok_empty)

lemma map_of_bt_of_list: "map_of (bt_of_list kvs) k = map_of (rev kvs) k"
  unfolding bt_of_list_def by (rule bt.lkp_collect)

lemma bt_ok_distinct: "bt_ok m \<Longrightarrow> distinct (map fst m)"
  by (simp add: bt_ok_def strict_sorted_iff)

lemma bt_insert_greatest: "\<forall>ju \<in> set m. fst ju < k \<Longrightarrow> bt_insert k v m = m @ [(k, v)]"
  by (induction m) auto

lemma bt_of_list_id:
  assumes "bt_ok m"
  shows "bt_of_list m = m"
  using assms unfolding bt_of_list_def bt_ok_def
proof (induction m rule: rev_induct)
  case (snoc kv m)
  then show ?case by (auto simp: sorted_wrt_append bt_insert_greatest)
qed simp

lemma set_bt_insert_subset: "set (bt_insert k v m) \<subseteq> insert (k, v) (set m)"
  by (induction m) (auto split: if_splits)

lemma set_bt_of_list: "set (bt_of_list kvs) \<subseteq> set kvs"
  unfolding bt_of_list_def
proof (induction kvs rule: rev_induct)
  case (snoc kv kvs)
  then show ?case using set_bt_insert_subset [of "fst kv" "snd kv"] by fastforce
qed simp

lemma bt_ok_filter: "bt_ok m \<Longrightarrow> bt_ok (filter P m)"
  unfolding bt_ok_def by (induction m) auto

lemma map_of_filter_pair:
  "distinct (map fst m) \<Longrightarrow> map_of (filter P m) k =
     (case map_of m k of Some v \<Rightarrow> if P (k, v) then Some v else None | None \<Rightarrow> None)"
proof (induction m)
  case (Cons kv m)
  then have "map_of m (fst kv) = None" by (simp add: map_of_eq_None_iff)
  with Cons show ?case by (auto split: option.splits)
qed simp

end
