(* ===== verification/Json.thy ===== *)
theory Json
  imports Rust_Map "HOL-Library.Monad_Syntax"
begin

text \<open>
  JSON and TOML trees, and what \<open>serde\<close>'s derive attributes in the agent's types make of them.

  The text formats themselves (\<open>serde_json\<close>, \<open>toml\<close>) are third-party code: parsing a text
  into a tree and printing a tree are parameters of the model. A \<open>json\<close> tree keeps an object's
  entries in the order of the text; a \<open>serde_json::Value\<close> is a tree whose objects are
  \<open>BTreeMap\<close>s (the build has no \<open>preserve_order\<close> feature), which \<open>norm_value\<close> establishes.
  Which fields a struct needs, their wire names and defaults come from the sources under src/.
\<close>

section \<open>Trees\<close>

text \<open>\<open>serde_json::Number\<close>: a non-negative or a negative integer, or a double (by its bits).\<close>

datatype json_num = PosInt u64 | NegInt u64 | Float u64

datatype json = JNull | JBool bool | JNum json_num | JStr string
  | JArr "json list" | JObj "(string \<times> json) list"

lemma size_obj_entry [termination_simp]:
  "kv \<in> set kvs \<Longrightarrow> size (snd kv) < Suc (size_list (size_prod (\<lambda>_. 0) size) kvs)"
  by (induction kvs) auto

fun norm_value :: "json \<Rightarrow> json" where
  "norm_value (JArr vs) = JArr (map norm_value vs)"
| "norm_value (JObj kvs) = JObj (bt_of_list (map (\<lambda>kv. (fst kv, norm_value (snd kv))) kvs))"
| "norm_value v = v"

text \<open>
  A tree that is a \<open>Value\<close> (sorted objects) and holds no floating-point number; a number of the
  kind \<open>NegInt\<close> is negative in \<open>serde_json\<close>.
\<close>

definition exact_num :: "json_num \<Rightarrow> bool" where
  "exact_num n = (case n of PosInt _ \<Rightarrow> True | NegInt k \<Rightarrow> sint k < 0 | Float _ \<Rightarrow> False)"

fun plain_value :: "json \<Rightarrow> bool" where
  "plain_value (JNum n) = exact_num n"
| "plain_value (JArr vs) = list_all plain_value vs"
| "plain_value (JObj kvs) = (bt_ok kvs \<and> list_all (\<lambda>kv. plain_value (snd kv)) kvs)"
| "plain_value _ = True"

fun float_free :: "json \<Rightarrow> bool" where
  "float_free (JNum n) = exact_num n"
| "float_free (JArr vs) = list_all float_free vs"
| "float_free (JObj kvs) = list_all (\<lambda>kv. float_free (snd kv)) kvs"
| "float_free _ = True"

lemma plain_float_free: "plain_value v \<Longrightarrow> float_free v"
  by (induction v rule: plain_value.induct) (auto simp: list_all_iff)

text \<open>How deeply arrays and objects are nested.\<close>

fun nesting :: "json \<Rightarrow> nat" where
  "nesting (JArr vs) = Suc (foldr max (map nesting vs) 0)"
| "nesting (JObj kvs) = Suc (foldr max (map (\<lambda>kv. nesting (snd kv)) kvs) 0)"
| "nesting _ = 0"

lemma foldr_max_le: "foldr max ns 0 \<le> (m :: nat) \<longleftrightarrow> (\<forall>n \<in> set ns. n \<le> m)"
  by (induction ns) auto

text \<open>What can be the detail of a log record and be read back: the record adds one level.\<close>

definition plain_detail :: "json \<Rightarrow> bool" where
  "plain_detail v \<longleftrightarrow> plain_value v \<and> nesting v \<le> 126"

lemma norm_plain: "plain_value v \<Longrightarrow> norm_value v = v"
proof (induction v rule: norm_value.induct)
  case (1 vs)
  then show ?case by (auto simp: list_all_iff intro: map_idI)
next
  case (2 kvs)
  then have "map (\<lambda>kv. (fst kv, norm_value (snd kv))) kvs = kvs"
    by (auto simp: list_all_iff intro!: map_idI)
  with 2 show ?case by (simp add: bt_of_list_id)
qed auto

text \<open>The object literal of \<open>json!\<close>, and \<open>Value::from\<close>.\<close>

definition json_obj :: "(string \<times> json) list \<Rightarrow> json" where
  "json_obj kvs = JObj (bt_of_list kvs)"

definition json_u64 :: "u64 \<Rightarrow> json" where
  "json_u64 n = JNum (PosInt n)"

definition json_opt_str :: "string option \<Rightarrow> json" where
  "json_opt_str s = (case s of Some t \<Rightarrow> JStr t | None \<Rightarrow> JNull)"

lemma plain_json_obj: "\<forall>kv \<in> set kvs. plain_value (snd kv) \<Longrightarrow> plain_value (json_obj kvs)"
  using set_bt_of_list [of kvs] by (auto simp: json_obj_def bt_ok_of_list list_all_iff)

lemma nesting_json_obj: "\<forall>kv \<in> set kvs. nesting (snd kv) \<le> m \<Longrightarrow> nesting (json_obj kvs) \<le> Suc m"
  using set_bt_of_list [of kvs] by (auto simp: json_obj_def foldr_max_le)

lemma plain_json_u64 [simp]: "plain_value (json_u64 n)" "nesting (json_u64 n) = 0"
  by (simp_all add: json_u64_def exact_num_def)

lemma plain_json_opt_str [simp]: "plain_value (json_opt_str s)" "nesting (json_opt_str s) = 0"
  by (simp_all add: json_opt_str_def split: option.split)

lemma plain_detail_obj:
  "\<forall>kv \<in> set kvs. plain_value (snd kv) \<and> nesting (snd kv) \<le> 125 \<Longrightarrow> plain_detail (json_obj kvs)"
  using nesting_json_obj [of kvs 125] by (auto simp: plain_detail_def plain_json_obj)

section \<open>Deriving Deserialize\<close>

text \<open>
  A derived struct reads an object by its fields' wire names (unknown entries are skipped, a field
  given twice is an error) or an array by position. \<open>de_struct\<close> returns, for each declared field,
  the tree given for it, or \<open>None\<close> for a field left out; a field of the list carries whether it
  has the \<open>serde(default)\<close> attribute, which an array needs to be allowed to end early.
\<close>

definition de_struct :: "(string \<times> bool) list \<Rightarrow> json \<Rightarrow> json option list option" where
  "de_struct fs j =
     (case j of
        JObj kvs \<Rightarrow>
          if list_all (\<lambda>f. length (filter (\<lambda>kv. fst kv = fst f) kvs) \<le> 1) fs
          then Some (map (\<lambda>f. map_of kvs (fst f)) fs) else None
      | JArr vs \<Rightarrow>
          if length vs \<le> length fs \<and> list_all snd (drop (length vs) fs)
          then Some (map Some vs @ replicate (length fs - length vs) None) else None
      | _ \<Rightarrow> None)"

text \<open>A required field, an \<open>Option\<close> field, and a field with a default.\<close>

definition req :: "(json \<Rightarrow> 'a option) \<Rightarrow> json option \<Rightarrow> 'a option" where
  "req d v = Option.bind v d"

definition opt :: "(json \<Rightarrow> 'a option) \<Rightarrow> json option \<Rightarrow> 'a option option" where
  "opt d v = (case v of None \<Rightarrow> Some None | Some JNull \<Rightarrow> Some None
              | Some j \<Rightarrow> map_option Some (d j))"

definition dflt :: "'a \<Rightarrow> (json \<Rightarrow> 'a option) \<Rightarrow> json option \<Rightarrow> 'a option" where
  "dflt x d v = (case v of None \<Rightarrow> Some x | Some j \<Rightarrow> d j)"

definition de_string :: "json \<Rightarrow> string option" where
  "de_string j = (case j of JStr s \<Rightarrow> Some s | _ \<Rightarrow> None)"

definition de_bool :: "json \<Rightarrow> bool option" where
  "de_bool j = (case j of JBool b \<Rightarrow> Some b | _ \<Rightarrow> None)"

definition de_u64 :: "json \<Rightarrow> u64 option" where
  "de_u64 j = (case j of JNum (PosInt n) \<Rightarrow> Some n | _ \<Rightarrow> None)"

fun de_list :: "('j \<Rightarrow> 'a option) \<Rightarrow> 'j list \<Rightarrow> 'a list option" where
  "de_list d [] = Some []"
| "de_list d (j # js) = do { x \<leftarrow> d j; xs \<leftarrow> de_list d js; Some (x # xs) }"

definition de_vec :: "(json \<Rightarrow> 'a option) \<Rightarrow> json \<Rightarrow> 'a list option" where
  "de_vec d j = (case j of JArr js \<Rightarrow> de_list d js | _ \<Rightarrow> None)"

text \<open>\<open>BTreeMap<String, String>\<close>: every entry is inserted, so the last of a repeated key stays.\<close>

definition de_str_map :: "json \<Rightarrow> (string \<times> string) list option" where
  "de_str_map j =
     (case j of
        JObj kvs \<Rightarrow> map_option (\<lambda>vs. bt_of_list (zip (map fst kvs) vs)) (de_list (\<lambda>kv. de_string (snd kv)) kvs)
      | _ \<Rightarrow> None)"

end
