(* ===== verification/World.thy ===== *)
theory World
  imports Json
begin

text \<open>
  The agent's error type (\<open>src/error.rs\<close>) and everything the agent's code runs against.

  \<^item> \<open>iface\<close> collects the third-party and remote code as functions: hashing, AES-GCM and base64
    primitives, the JSON and TOML text formats, HTTP, LDAP and SQL calls, the clock and the random
    generator. Stateful ones act on a state of a type the model never looks into. What the agent
    relies on is stated as the predicates \<open>json_laws\<close> and \<open>cipher_laws\<close>.
  \<^item> \<open>world\<close> is the machine the process runs on: the files, the environment variables, the moment
    the shutdown signal arrives, and (as a history variable) the calls made to other systems.
  \<^item> \<open>await\<close> is a call made at an await point, the only place where \<open>tokio::select!\<close> can drop
    the running work.
\<close>

section \<open>Errors\<close>

datatype agent_error = Config_err string | Crypto_err string | Audit_err string
  | Server_err string | Ldap_err string | Db_err string | Io_err string

fun error_str :: "agent_error \<Rightarrow> string" where
  "error_str (Config_err m) = ''configuration error: '' @ m"
| "error_str (Crypto_err m) = ''crypto error: '' @ m"
| "error_str (Audit_err m) = ''audit log error: '' @ m"
| "error_str (Server_err m) = ''server communication error: '' @ m"
| "error_str (Ldap_err m) = ''LDAP error: '' @ m"
| "error_str (Db_err m) = ''database error: '' @ m"
| "error_str (Io_err m) = ''io error: '' @ m"

section \<open>Messages to other systems\<close>

datatype http_method = GET | POST

record http_client =
  hc_timeout_secs :: nat
  hc_accept_invalid_certs :: bool
  hc_user_agent :: string

record http_req =
  rq_method :: http_method
  rq_url :: string
  rq_headers :: "(string \<times> string) list"
  rq_body :: "json option"

text \<open>A response: its status code, and its body or the error of reading it.\<close>

record http_resp =
  rs_status :: nat
  rs_body :: "(string, string) result"

datatype scope = Base_scope | Subtree_scope

text \<open>\<open>ldap3::Mod::Replace\<close>, the only modification the agent sends (values are bytes).\<close>

datatype ldap_mod = Replace string "string list"

record ldap_result =
  lr_rc :: nat
  lr_text :: string

record search_entry =
  se_dn :: string
  se_attrs :: "(string \<times> string list) list"

text \<open>
  A row of \<open>sqlx\<close>'s \<open>Any\<close> driver: its column names and, per column, what \<open>try_get\<close> gives for
  each type the agent tries (\<open>None\<close> for an error, \<open>Some None\<close> for SQL's NULL). A double is
  carried by its bits.
\<close>

record db_row =
  row_columns :: "string list"
  row_text :: "string \<Rightarrow> string option option"
  row_i64 :: "string \<Rightarrow> u64 option option"
  row_f64 :: "string \<Rightarrow> u64 option option"
  row_bool :: "string \<Rightarrow> bool option option"

text \<open>Calls to the Windows Service Control Manager; a manager or service is a handle.\<close>

datatype scm_right = CREATE_SERVICE | CONNECT | CHANGE_CONFIG | START | STOP | DELETE | QUERY_STATUS

record service_info =
  si_name :: string
  si_display_name :: string
  si_auto_start :: bool
  si_executable :: string
  si_launch_arguments :: "string list"
  si_account_name :: "string option"

datatype service_state = Running | Stop_pending | Stopped

text \<open>A reported status: the state, and the controls the service then accepts.\<close>

record service_status =
  ss_state :: service_state
  ss_accepts_stop :: bool
  ss_accepts_shutdown :: bool

datatype scm_call = ScmManager "scm_right list"
  | ScmCreate nat service_info "scm_right list"
  | ScmOpen nat string "scm_right list"
  | ScmDescribe nat string
  | ScmStart nat
  | ScmStop nat
  | ScmDelete nat
  | ScmDispatch string
  | ScmRegister string
  | ScmStatus nat service_status

datatype effect = EHttp http_req
  | ELdapConnect bool string
  | ELdapBind nat string string
  | ELdapGssapi nat string
  | ELdapAdd nat string "(string \<times> string list) list"
  | ELdapModify nat string "ldap_mod list"
  | ELdapSearch nat string scope string "string list"
  | ELdapUnbind nat
  | EDbConnect string
  | EDbFetch nat string
  | EDbExecute nat string "string list"
  | ESleep u64
  | EScm scm_call

section \<open>Third-party and remote code\<close>

record 'x iface =
  if_sha256 :: "string \<Rightarrow> string"
  if_hex :: "string \<Rightarrow> string"
  if_b64_encode :: "string \<Rightarrow> string"
  if_b64_decode :: "string \<Rightarrow> (string, string) result"
  if_aes_encrypt :: "string \<Rightarrow> string \<Rightarrow> string \<Rightarrow> string option"
  if_aes_decrypt :: "string \<Rightarrow> string \<Rightarrow> string \<Rightarrow> string option"
  if_utf8_msg :: "string \<Rightarrow> string"
  if_json_str :: "json \<Rightarrow> string"
  if_json_of :: "string \<Rightarrow> json option"
  if_de_msg :: "string \<Rightarrow> string \<Rightarrow> string"
  if_toml_of :: "string \<Rightarrow> json option"
  if_now :: "'x \<Rightarrow> string \<times> 'x"
  if_fill :: "nat \<Rightarrow> 'x \<Rightarrow> string \<times> 'x"
  if_http_build :: "http_client \<Rightarrow> (string, unit) result"
  if_http :: "http_client \<Rightarrow> http_req \<Rightarrow> 'x \<Rightarrow> (string, http_resp) result \<times> 'x"
  if_status_str :: "nat \<Rightarrow> string"
  if_ldap_connect :: "bool \<Rightarrow> string \<Rightarrow> 'x \<Rightarrow> (string, nat) result \<times> 'x"
  if_ldap_bind :: "nat \<Rightarrow> string \<Rightarrow> string \<Rightarrow> 'x \<Rightarrow> (string, ldap_result) result \<times> 'x"
  if_ldap_gssapi :: "nat \<Rightarrow> string \<Rightarrow> 'x \<Rightarrow> (string, ldap_result) result \<times> 'x"
  if_ldap_add :: "nat \<Rightarrow> string \<Rightarrow> (string \<times> string list) list \<Rightarrow> 'x
                  \<Rightarrow> (string, ldap_result) result \<times> 'x"
  if_ldap_modify :: "nat \<Rightarrow> string \<Rightarrow> ldap_mod list \<Rightarrow> 'x \<Rightarrow> (string, ldap_result) result \<times> 'x"
  if_ldap_search :: "nat \<Rightarrow> string \<Rightarrow> scope \<Rightarrow> string \<Rightarrow> string list \<Rightarrow> 'x
                     \<Rightarrow> (string, search_entry list \<times> ldap_result) result \<times> 'x"
  if_ldap_unbind :: "nat \<Rightarrow> 'x \<Rightarrow> (string, unit) result \<times> 'x"
  if_ldap_rc_msg :: "ldap_result \<Rightarrow> string"
  if_db_connect :: "string \<Rightarrow> 'x \<Rightarrow> (string, nat) result \<times> 'x"
  if_db_fetch :: "nat \<Rightarrow> string \<Rightarrow> 'x \<Rightarrow> (string, db_row list) result \<times> 'x"
  if_db_execute :: "nat \<Rightarrow> string \<Rightarrow> string list \<Rightarrow> 'x \<Rightarrow> (string, u64) result \<times> 'x"
  if_kerberos :: bool
  if_db_feature :: bool
  if_windows :: bool
  if_scm :: "scm_call \<Rightarrow> 'x \<Rightarrow> (string, nat) result \<times> 'x"
  if_current_exe :: "(string, string) result"
  if_canonicalize :: "string \<Rightarrow> string option"
  if_create_dir_all :: "string \<Rightarrow> 'x \<Rightarrow> (string, unit) result \<times> 'x"

text \<open>
  Documented behaviour of \<open>serde_json\<close>: a printed tree parses back to itself (doubles apart, and
  up to the parser's nesting limit of 128), and the compact form is one line, since control
  characters are escaped.
\<close>

definition json_laws :: "'x iface \<Rightarrow> bool" where
  "json_laws I \<longleftrightarrow> (\<forall>j. float_free j \<and> nesting j \<le> 127 \<longrightarrow> if_json_of I (if_json_str I j) = Some j)
     \<and> (\<forall>j. clean_line (if_json_str I j))"

text \<open>
  Documented behaviour of the \<open>aes-gcm\<close> and \<open>base64\<close> crates: decryption inverts encryption
  under the same key and nonce and the tag makes the ciphertext non-empty; the standard alphabet
  consists of visible ASCII characters other than \<open>|\<close>, and decoding inverts encoding.
\<close>

definition cipher_laws :: "'x iface \<Rightarrow> bool" where
  "cipher_laws I \<longleftrightarrow>
     (\<forall>k n p c. if_aes_encrypt I k n p = Some c \<longrightarrow> if_aes_decrypt I k n c = Some p \<and> c \<noteq> [])
     \<and> (\<forall>b. if_b64_decode I (if_b64_encode I b) = Ok b)
     \<and> (\<forall>b. \<forall>c \<in> set (if_b64_encode I b). graphic c \<and> c \<noteq> CHR ''|'')"

text \<open>Documented behaviour of the \<open>hex\<close> crate: hexadecimal digits only, so no line break.\<close>

definition hash_laws :: "'x iface \<Rightarrow> bool" where
  "hash_laws I \<longleftrightarrow> (\<forall>b. NL \<notin> set (if_hex I b))"

text \<open>\<open>serde_json::from_str\<close> at a derived type: parse, then deserialise.\<close>

definition from_json_str ::
    "'x iface \<Rightarrow> string \<Rightarrow> (json \<Rightarrow> 'a option) \<Rightarrow> string \<Rightarrow> (string, 'a) result" where
  "from_json_str I ty d s = ok_or (if_de_msg I ty s) (Option.bind (if_json_of I s) d)"

section \<open>The machine\<close>

text \<open>
  \<open>w_noread\<close> and \<open>w_nowrite\<close> are the paths whose opening fails (other than by not being there),
  with the error's text; \<open>w_quota\<close> is the space left on the disk, if it is bounded. \<open>w_stop\<close> says
  after how many more completed awaits the shutdown signal arrives (\<open>None\<close>: never); then
  \<open>w_late\<close> says whether the call in progress at that moment still took effect at its peer.
\<close>

record 'x world =
  w_files :: "string \<rightharpoonup> string"
  w_noread :: "string \<rightharpoonup> string"
  w_nowrite :: "string \<rightharpoonup> string"
  w_quota :: "nat option"
  w_env :: "string \<rightharpoonup> string"
  w_stop :: "nat option"
  w_late :: bool
  w_trace :: "effect list"
  w_ext :: "'x"

definition perform :: "effect \<Rightarrow> ('x \<Rightarrow> 'a \<times> 'x) \<Rightarrow> 'x world \<Rightarrow> 'a \<times> 'x world" where
  "perform e f w = (case f (w_ext w) of (a, x) \<Rightarrow> (a, w\<lparr>w_trace := w_trace w @ [e], w_ext := x\<rparr>))"

definition await :: "effect \<Rightarrow> ('x \<Rightarrow> 'a \<times> 'x) \<Rightarrow> ('x world, 'a) act" where
  "await e f w =
     (case w_stop w of
        Some 0 \<Rightarrow> (Dropped, if w_late w then snd (perform e f w) else w)
      | Some (Suc n) \<Rightarrow> (case perform e f w of (a, w') \<Rightarrow> (Done a, w'\<lparr>w_stop := Some n\<rparr>))
      | None \<Rightarrow> (case perform e f w of (a, w') \<Rightarrow> (Done a, w')))"

text \<open>An await point without a call of its own (reading the rest of a response).\<close>

definition pause :: "('x world, unit) act" where
  "pause w =
     (case w_stop w of
        Some 0 \<Rightarrow> (Dropped, w)
      | Some (Suc n) \<Rightarrow> (Done (), w\<lparr>w_stop := Some n\<rparr>)
      | None \<Rightarrow> (Done (), w))"

text \<open>A blocking call to another system, which no shutdown interrupts.\<close>

definition blocking :: "effect \<Rightarrow> ('x \<Rightarrow> 'a \<times> 'x) \<Rightarrow> ('x world, 'a) act" where
  "blocking e f w = (case perform e f w of (a, w') \<Rightarrow> (Done a, w'))"

text \<open>A call outside any await point (the clock, the random generator).\<close>

definition callM :: "('x \<Rightarrow> 'a \<times> 'x) \<Rightarrow> ('x world, 'a) act" where
  "callM f w = (case f (w_ext w) of (a, x) \<Rightarrow> (Done a, w\<lparr>w_ext := x\<rparr>))"

text \<open>\<open>std::env::var\<close>: a variable's value, or an error when it is not set.\<close>

definition env_var :: "(string \<rightharpoonup> string) \<Rightarrow> string \<Rightarrow> string option" where
  "env_var env v = env v"

text \<open>Opening a file for reading: its content, \<open>NotFound\<close>, or another error.\<close>

datatype open_result = Opened string | Not_found | Open_failed string

definition fs_open :: "'x world \<Rightarrow> string \<Rightarrow> open_result" where
  "fs_open w p =
     (case w_noread w p of Some m \<Rightarrow> Open_failed m
      | None \<Rightarrow> (case w_files w p of Some c \<Rightarrow> Opened c | None \<Rightarrow> Not_found))"

lemma fs_open_same: "w_files w' = w_files w \<Longrightarrow> w_noread w' = w_noread w \<Longrightarrow> fs_open w' p = fs_open w p"
  by (simp add: fs_open_def split: option.split)

text \<open>
  Appending a text to a file that is created if needed. With less space than the text needs, a
  first part of it reaches the disk and the write fails.
\<close>

definition fs_append :: "string \<Rightarrow> string \<Rightarrow> ('x world, (agent_error, unit) result) act" where
  "fs_append p s w =
     (case w_nowrite w p of Some m \<Rightarrow> (Done (Err (Io_err m)), w)
      | None \<Rightarrow>
          (let old = (case w_files w p of Some c \<Rightarrow> c | None \<Rightarrow> [])
           in case w_quota w of
                None \<Rightarrow> (Done (Ok ()), w\<lparr>w_files := (w_files w)(p \<mapsto> old @ s)\<rparr>)
              | Some q \<Rightarrow>
                  if length s \<le> q
                  then (Done (Ok ()), w\<lparr>w_files := (w_files w)(p \<mapsto> old @ s),
                                          w_quota := Some (q - length s)\<rparr>)
                  else (Done (Err (Io_err ''No space left on device'')),
                        w\<lparr>w_files := (w_files w)(p \<mapsto> old @ take q s), w_quota := Some 0\<rparr>)))"

text \<open>
  Writing a whole file: it is created or emptied first. With less space than the text needs, a
  first part of it stays.
\<close>

definition fs_write :: "string \<Rightarrow> string \<Rightarrow> ('x world, (string, unit) result) act" where
  "fs_write p s w =
     (case w_nowrite w p of Some m \<Rightarrow> (Done (Err m), w)
      | None \<Rightarrow>
          (case w_quota w of
             None \<Rightarrow> (Done (Ok ()), w\<lparr>w_files := (w_files w)(p \<mapsto> s)\<rparr>)
           | Some q \<Rightarrow>
               (let room = q + (case w_files w p of Some c \<Rightarrow> length c | None \<Rightarrow> 0)
                in if length s \<le> room
                   then (Done (Ok ()), w\<lparr>w_files := (w_files w)(p \<mapsto> s), w_quota := Some (room - length s)\<rparr>)
                   else (Done (Err ''No space left on device''),
                         w\<lparr>w_files := (w_files w)(p \<mapsto> take room s), w_quota := Some 0\<rparr>))))"

section \<open>What calls to other systems leave alone\<close>

text \<open>
  The contract of every client of another system: it changes the world through await points,
  clock and random calls only, and makes only calls that are \<open>allowed\<close>. A relation that these keep
  is kept by the whole HTTP, LDAP and SQL client code; the locale is interpreted for the relations
  the properties need.
\<close>

locale world_frame = frame R for R :: "'x world \<Rightarrow> 'x world \<Rightarrow> bool" +
  fixes allowed :: "effect \<Rightarrow> bool"
  assumes frame_perform: "allowed e \<Longrightarrow> R w (snd (perform e (f :: 'x \<Rightarrow> unit \<times> 'x) w))"
    and frame_stop: "w_stop w = Some (Suc n) \<Longrightarrow> R w (w\<lparr>w_stop := Some n\<rparr>)"
    and frame_ext: "R w (w\<lparr>w_ext := x\<rparr>)"
begin

lemma keeps_perform: "allowed e \<Longrightarrow> R w (snd (perform e f w))"
  using frame_perform [of e w "\<lambda>x. ((), snd (f x))"]
  by (simp add: perform_def case_prod_beta)

lemma keeps_await [frame_rules]:
  assumes "allowed e"
  shows "keeps R (await e f)"
proof (rule keepsI)
  fix w
  have p: "R w (snd (perform e f w))" using assms by (rule keeps_perform)
  moreover have "w_stop (snd (perform e f w)) = w_stop w" by (simp add: perform_def split: prod.split)
  ultimately have "R w ((snd (perform e f w))\<lparr>w_stop := Some n\<rparr>)" if "w_stop w = Some (Suc n)" for n
    using that by (metis frame_trans frame_stop)
  with p show "R w (snd (await e f w))"
    by (auto simp: await_def frame_refl split: prod.splits option.splits nat.splits)
qed

lemma keeps_pause [frame_rules]: "keeps R pause"
  by (auto simp: keeps_def pause_def frame_refl frame_stop split: option.splits nat.splits)

lemma keeps_blocking [frame_rules]: "allowed e \<Longrightarrow> keeps R (blocking e f)"
  using keeps_perform [of e _ f] by (auto simp: keeps_def blocking_def split: prod.splits) (metis snd_conv)

lemma keeps_callM [frame_rules]: "keeps R (callM f)"
  by (auto simp: keeps_def callM_def intro: frame_ext split: prod.splits)

end

text \<open>The disk and the environment variables.\<close>

definition disk_kept :: "'x world \<Rightarrow> 'x world \<Rightarrow> bool" where
  "disk_kept w w' \<longleftrightarrow> w_files w' = w_files w \<and> w_noread w' = w_noread w
     \<and> w_nowrite w' = w_nowrite w \<and> w_quota w' = w_quota w \<and> w_env w' = w_env w"

abbreviation any_effect :: "effect \<Rightarrow> bool" where
  "any_effect \<equiv> \<lambda>_. True"

text \<open>\<open>sends P\<close>: the history of calls only grows, and every call added to it satisfies \<open>P\<close>.\<close>

definition sends :: "(effect \<Rightarrow> bool) \<Rightarrow> 'x world \<Rightarrow> 'x world \<Rightarrow> bool" where
  "sends P w w' \<longleftrightarrow> (\<exists>es. w_trace w' = w_trace w @ es \<and> list_all P es)"

interpretation disk: world_frame disk_kept any_effect
  by unfold_locales (auto simp: disk_kept_def perform_def split: prod.splits)

interpretation sends: world_frame "sends P" P for P
proof unfold_locales
  fix s t u :: "'x world"
  assume "sends P s t" "sends P t u"
  then show "sends P s u" by (auto simp: sends_def)
qed (auto simp: sends_def perform_def split: prod.splits)

text \<open>
  The shutdown's moment only comes nearer, and without a shutdown nothing is cut off.
\<close>

definition counts_down :: "'x world \<Rightarrow> 'x world \<Rightarrow> bool" where
  "counts_down w w' \<longleftrightarrow>
     (case w_stop w of None \<Rightarrow> w_stop w' = None | Some n \<Rightarrow> \<exists>m \<le> n. w_stop w' = Some m)"

interpretation countdown: world_frame counts_down any_effect
  by unfold_locales
    (auto simp: counts_down_def perform_def intro: order_trans split: option.splits prod.splits)

lemma keeps_sends_weaken: "keeps (sends P) m \<Longrightarrow> (\<And>e. P e \<Longrightarrow> Q e) \<Longrightarrow> keeps (sends Q) m"
  unfolding keeps_def sends_def by (metis list.pred_mono_strong)

section \<open>Runs that no shutdown interrupts\<close>

lemma await_calm:
  "w_stop w = None \<Longrightarrow> await e f w =
     (Done (fst (f (w_ext w))), w\<lparr>w_trace := w_trace w @ [e], w_ext := snd (f (w_ext w))\<rparr>)"
  by (simp add: await_def perform_def case_prod_beta)

lemma pause_calm: "w_stop w = None \<Longrightarrow> pause w = (Done (), w)"
  by (simp add: pause_def)

lemma callM_calm: "callM f w = (Done (fst (f (w_ext w))), w\<lparr>w_ext := snd (f (w_ext w))\<rparr>)"
  by (simp add: callM_def case_prod_beta)

lemmas calm = await_calm pause_calm callM_calm

lemma panic_free_calls [panic_rules]: "panic_free (await e f)" "panic_free pause" "panic_free (callM g)"
  "panic_free (blocking e h)"
  by (auto simp: panic_free_def await_def pause_def callM_def blocking_def split: option.split nat.split prod.split)

abbreviation calm_world :: "'x world \<Rightarrow> bool" where
  "calm_world w \<equiv> w_stop w = None"

lemma finishes_calls [finish_rules]:
  "finishes calm_world any_value (await e f)" "finishes calm_world any_value pause"
  "finishes calm_world any_value (callM g)"
  by (simp_all add: finishes_def calm)

end
