(* ===== verification/Sample.thy ===== *)
theory Sample
  imports World
begin

text \<open>
  One concrete instance of the third-party interface, for the witnesses: a bracketed text format
  for trees, hexadecimal with the letters A to P in place of base64 and of the digest, a cipher
  that only adds a tag, and systems that answer every call with an error. A witness replaces the
  functions it needs. The instance satisfies \<open>json_laws\<close> and \<open>cipher_laws\<close>.
\<close>

section \<open>Letters for bytes\<close>

definition letter :: "nat \<Rightarrow> char" where
  "letter n = char_of (65 + n)"

fun letters :: "string \<Rightarrow> string" where
  "letters [] = []"
| "letters (c # s) = letter (byte c div 16) # letter (byte c mod 16) # letters s"

fun unletters :: "string \<Rightarrow> string option" where
  "unletters [] = Some []"
| "unletters [c] = None"
| "unletters (c # d # s) =
     (if 65 \<le> byte c \<and> byte c < 81 \<and> 65 \<le> byte d \<and> byte d < 81
      then map_option (Cons (char_of (16 * (byte c - 65) + (byte d - 65)))) (unletters s)
      else None)"

lemma byte_letter: "n < 16 \<Longrightarrow> byte (letter n) = 65 + n"
  by (simp add: byte_def letter_def)

lemma letters_range: "c \<in> set (letters s) \<Longrightarrow> 65 \<le> byte c \<and> byte c < 81"
proof (induction s)
  case (Cons b s)
  have "byte b div 16 < 16" using byte_less [of b] by (simp add: div_less_iff_less_mult)
  with Cons show ?case by (auto simp: byte_letter)
qed simp

lemma letters_eq_Nil [simp]: "letters s = [] \<longleftrightarrow> s = []"
  by (cases s) auto

lemma unletters_letters [simp]: "unletters (letters s) = Some s"
proof (induction s)
  case (Cons b s)
  have "byte b div 16 < 16" using byte_less [of b] by (simp add: div_less_iff_less_mult)
  with Cons show ?case by (simp add: byte_letter) (simp add: byte_def)
qed simp

section \<open>A text format for trees\<close>

fun show_tree :: "json \<Rightarrow> string" where
  "show_tree JNull = ''n''"
| "show_tree (JBool b) = (if b then ''t'' else ''f'')"
| "show_tree (JNum (PosInt n)) = ''p'' @ dec (unat n) @ '';''"
| "show_tree (JNum (NegInt n)) = ''m'' @ dec (unat n) @ '';''"
| "show_tree (JNum (Float n)) = ''d'' @ dec (unat n) @ '';''"
| "show_tree (JStr s) = ''s'' @ letters s @ '';''"
| "show_tree (JArr vs) = ''['' @ concat (map show_tree vs) @ '']''"
| "show_tree (JObj kvs) =
     ''{'' @ concat (map (\<lambda>kv. ''s'' @ letters (fst kv) @ '';'' @ show_tree (snd kv)) kvs) @ '']''"

definition cut_token :: "string \<Rightarrow> string \<times> string" where
  "cut_token s = (takeWhile (\<lambda>c. c \<noteq> CHR '';'') s, drop 1 (dropWhile (\<lambda>c. c \<noteq> CHR '';'') s))"

fun pair_up :: "json list \<Rightarrow> (string \<times> json) list option" where
  "pair_up [] = Some []"
| "pair_up (JStr k # v # vs) = map_option (Cons (k, v)) (pair_up vs)"
| "pair_up _ = None"

definition read_num :: "(u64 \<Rightarrow> json_num) \<Rightarrow> string \<Rightarrow> (json \<times> string) option" where
  "read_num mk s = Some (JNum (mk (of_nat (undec (fst (cut_token s))))), snd (cut_token s))"

fun read_tree :: "nat \<Rightarrow> string \<Rightarrow> (json \<times> string) option"
  and read_trees :: "nat \<Rightarrow> string \<Rightarrow> (json list \<times> string) option" where
  "read_tree 0 s = None"
| "read_tree (Suc k) [] = None"
| "read_tree (Suc k) (c # s) =
     (if c = CHR ''n'' then Some (JNull, s)
      else if c = CHR ''t'' then Some (JBool True, s)
      else if c = CHR ''f'' then Some (JBool False, s)
      else if c = CHR ''p'' then read_num PosInt s
      else if c = CHR ''m'' then read_num NegInt s
      else if c = CHR ''d'' then read_num Float s
      else if c = CHR ''s'' then
        map_option (\<lambda>t. (JStr t, snd (cut_token s))) (unletters (fst (cut_token s)))
      else if c = CHR ''['' then map_option (\<lambda>(js, r). (JArr js, r)) (read_trees k s)
      else if c = CHR ''{'' then
        Option.bind (read_trees k s) (\<lambda>(js, r). map_option (\<lambda>kvs. (JObj kvs, r)) (pair_up js))
      else None)"
| "read_trees 0 s = None"
| "read_trees (Suc k) [] = None"
| "read_trees (Suc k) (c # s) =
     (if c = CHR '']'' then Some ([], s)
      else Option.bind (read_tree k (c # s)) (\<lambda>(j, r).
             map_option (\<lambda>(js, r'). (j # js, r')) (read_trees k r)))"

definition parse_tree :: "string \<Rightarrow> json option" where
  "parse_tree s = (case read_tree (Suc (2 * length s)) s of Some (j, []) \<Rightarrow> Some j | _ \<Rightarrow> None)"

lemma token_split: "CHR '';'' \<notin> set t \<Longrightarrow> cut_token (t @ CHR '';'' # r) = (t, r)"
  by (induction t) (auto simp: cut_token_def)

lemma dec_no_semicolon: "CHR '';'' \<notin> set (dec n)"
  by (auto dest: dec_digits simp: byte_def)

lemma letters_no_semicolon: "CHR '';'' \<notin> set (letters s)"
  by (auto dest: letters_range simp: byte_def)

lemma read_num_dec [simp]: "read_num mk (dec (unat n) @ CHR '';'' # r) = Some (JNum (mk n), r)"
  by (simp add: read_num_def token_split dec_no_semicolon)

lemma token_letters [simp]: "cut_token (letters s @ CHR '';'' # r) = (letters s, r)"
  by (simp add: token_split letters_no_semicolon)

fun flat :: "(string \<times> json) list \<Rightarrow> json list" where
  "flat [] = []"
| "flat ((k, v) # kvs) = JStr k # v # flat kvs"

lemma pair_up_flat [simp]: "pair_up (flat kvs) = Some kvs"
  by (induction kvs rule: flat.induct) auto

lemma show_obj_flat:
  "concat (map (\<lambda>kv. ''s'' @ letters (fst kv) @ '';'' @ show_tree (snd kv)) kvs)
     = concat (map show_tree (flat kvs))"
  by (induction kvs rule: flat.induct) auto

lemma show_tree_Cons: "\<exists>c s. show_tree j = c # s \<and> c \<noteq> CHR '']''"
  by (induction j rule: show_tree.induct) auto

lemma read_trees_show:
  assumes "\<And>j k r. j \<in> set js \<Longrightarrow> 2 * length (show_tree j) \<le> k \<Longrightarrow>
             read_tree k (show_tree j @ r) = Some (j, r)"
    and "2 * length (concat (map show_tree js)) < k"
  shows "read_trees k (concat (map show_tree js) @ CHR '']'' # r) = Some (js, r)"
  using assms
proof (induction js arbitrary: k)
  case Nil
  then show ?case by (cases k) auto
next
  case (Cons j js)
  from Cons.prems(2) obtain k' where k: "k = Suc k'" by (cases k) auto
  obtain c s where cs: "show_tree j = c # s" "c \<noteq> CHR '']''" using show_tree_Cons by blast
  then have "2 * length (show_tree j) \<le> k'" "2 * length (concat (map show_tree js)) < k'"
    using Cons.prems(2) k by auto
  moreover from this(2) have
    "read_trees k' (concat (map show_tree js) @ CHR '']'' # r) = Some (js, r)"
    using Cons by auto
  moreover have "read_tree k' (show_tree j @ concat (map show_tree js) @ CHR '']'' # r)
      = Some (j, concat (map show_tree js) @ CHR '']'' # r)"
    using Cons.prems(1) calculation(1) by simp
  ultimately show ?case using cs k by simp
qed

lemma show_tree_pos: "2 * length (show_tree j) \<le> k \<Longrightarrow> \<exists>k'. k = Suc k'"
  using show_tree_Cons [of j] by (cases k) auto

lemma read_show_Suc:
  "2 * length (show_tree j) \<le> Suc k \<Longrightarrow> read_tree (Suc k) (show_tree j @ r) = Some (j, r)"
proof (induction j arbitrary: k r rule: show_tree.induct)
  case (7 vs)
  have "read_tree n (show_tree j @ r') = Some (j, r')"
    if "j \<in> set vs" "2 * length (show_tree j) \<le> n" for j n r'
  proof -
    from show_tree_pos [OF that(2)] obtain n' where "n = Suc n'" ..
    with that 7(1) [of j n' r'] show ?thesis by simp
  qed
  then have "read_trees k (concat (map show_tree vs) @ CHR '']'' # r) = Some (vs, r)"
    using 7(2) by (intro read_trees_show) auto
  then show ?case by simp
next
  case (8 kvs)
  have flat_set: "j \<in> set (flat kvs) \<Longrightarrow> (\<exists>s. j = JStr s) \<or> j \<in> snd ` set kvs" for j
    by (induction kvs rule: flat.induct) auto
  have str: "2 * length (show_tree (JStr t)) \<le> n \<Longrightarrow>
      read_tree n (show_tree (JStr t) @ r') = Some (JStr t, r')" for t n r'
    by (cases n) auto
  have elem: "read_tree n (show_tree j @ r') = Some (j, r')"
    if "j \<in> set (flat kvs)" "2 * length (show_tree j) \<le> n" for j n r'
  proof -
    from flat_set [OF that(1)] consider (s) t where "j = JStr t" | (v) kv where "kv \<in> set kvs" "j = snd kv"
      by auto
    then show ?thesis
    proof cases
      case s
      with str that(2) show ?thesis by blast
    next
      case v
      from show_tree_pos [OF that(2)] obtain n' where "n = Suc n'" ..
      with v that(2) 8(1) [of kv n' r'] show ?thesis by simp
    qed
  qed
  have shown: "show_tree (JObj kvs) = ''{'' @ concat (map show_tree (flat kvs)) @ '']''"
    by (simp add: show_obj_flat del: append.simps)
  then have "read_trees k (concat (map show_tree (flat kvs)) @ CHR '']'' # r)
      = Some (flat kvs, r)"
    using 8(2) elem by (intro read_trees_show) auto
  then show ?case unfolding shown by simp
qed auto

lemma parse_show: "parse_tree (show_tree j) = Some j"
  using read_show_Suc [of j "2 * length (show_tree j)" "[]"] by (simp add: parse_tree_def)

lemma parse_cut_object: "parse_tree (CHR ''{'' # show_tree j) = None"
proof -
  obtain c s where cs: "show_tree j = c # s" "c \<noteq> CHR '']''" using show_tree_Cons by blast
  let ?n = "2 * length (show_tree j)"
  have "read_tree (Suc ?n) (show_tree j) = Some (j, [])"
    using read_show_Suc [of j ?n "[]"] by simp
  moreover have "read_trees (Suc ?n) [] = None" by simp
  ultimately have "read_trees (Suc (Suc ?n)) (show_tree j) = None"
    using cs by simp
  then show ?thesis by (simp add: parse_tree_def)
qed

lemma parse_two_trees: "parse_tree (show_tree j @ show_tree k) = None"
proof -
  have "read_tree (Suc (2 * length (show_tree j @ show_tree k))) (show_tree j @ show_tree k) = Some (j, show_tree k)"
    using read_show_Suc [of j "2 * length (show_tree j @ show_tree k)" "show_tree k"] by simp
  moreover have "show_tree k \<noteq> []" using show_tree_Cons [of k] by auto
  ultimately show ?thesis by (simp add: parse_tree_def split: list.split)
qed

text \<open>The format is one line of visible ASCII characters.\<close>

lemma show_tree_range: "c \<in> set (show_tree j) \<Longrightarrow> 33 \<le> byte c \<and> byte c < 127"
proof (induction j rule: show_tree.induct)
qed (auto dest!: dec_digits letters_range simp: byte_def split: if_splits)

lemma show_tree_clean: "clean_line (show_tree j)"
proof -
  have ne: "show_tree j \<noteq> []" using show_tree_Cons [of j] by auto
  then show ?thesis
    using show_tree_range [of _ j]
    by (auto simp: clean_line_def graphic_def intro!: utf8_valid_ascii) (fastforce dest: show_tree_range)+
qed

section \<open>The instance\<close>

definition sample_decrypt :: "string \<Rightarrow> string option" where
  "sample_decrypt c = (case c of t # p \<Rightarrow> if t = CHR ''T'' then Some p else None | [] \<Rightarrow> None)"

definition base_iface :: "'x iface" where
  "base_iface =
     \<lparr>if_sha256 = (\<lambda>s. s), if_hex = letters,
      if_b64_encode = letters, if_b64_decode = (\<lambda>s. ok_or ''Invalid symbol'' (unletters s)),
      if_aes_encrypt = (\<lambda>k n p. Some (CHR ''T'' # p)), if_aes_decrypt = (\<lambda>k n c. sample_decrypt c),
      if_utf8_msg = (\<lambda>s. ''invalid utf-8''),
      if_json_str = show_tree, if_json_of = parse_tree,
      if_de_msg = (\<lambda>ty s. ''cannot read '' @ ty), if_toml_of = parse_tree,
      if_now = (\<lambda>x. (''2026-01-01T00:00:00+00:00'', x)),
      if_fill = (\<lambda>n x. (replicate n (CHR ''7''), x)),
      if_http_build = (\<lambda>c. Ok ()),
      if_http = (\<lambda>c r x. (Err ''unreachable'', x)), if_status_str = dec,
      if_ldap_connect = (\<lambda>t u x. (Err ''unreachable'', x)),
      if_ldap_bind = (\<lambda>h d p x. (Err ''closed'', x)), if_ldap_gssapi = (\<lambda>h f x. (Err ''closed'', x)),
      if_ldap_add = (\<lambda>h d a x. (Err ''closed'', x)),
      if_ldap_modify = (\<lambda>h d m x. (Err ''closed'', x)),
      if_ldap_search = (\<lambda>h b s f a x. (Err ''closed'', x)),
      if_ldap_unbind = (\<lambda>h x. (Ok (), x)), if_ldap_rc_msg = (\<lambda>r. lr_text r),
      if_db_connect = (\<lambda>u x. (Err ''unreachable'', x)), if_db_fetch = (\<lambda>p q x. (Err ''closed'', x)),
      if_db_execute = (\<lambda>p q b x. (Err ''closed'', x)),
      if_kerberos = False, if_db_feature = True, if_windows = False,
      if_scm = (\<lambda>c x. (Ok 1, x)), if_current_exe = Ok ''nexus-agent.exe'', if_canonicalize = Some,
      if_create_dir_all = (\<lambda>d x. (Ok (), x))\<rparr>"

definition sample_iface :: "unit iface" where
  "sample_iface = base_iface"

definition sample_world :: "unit world" where
  "sample_world =
     \<lparr>w_files = Map.empty, w_noread = Map.empty, w_nowrite = Map.empty, w_quota = None,
      w_env = Map.empty, w_stop = None, w_late = False, w_trace = [], w_ext = ()\<rparr>"

lemma sample_json_laws: "json_laws sample_iface"
  by (simp add: json_laws_def sample_iface_def base_iface_def parse_show show_tree_clean)

lemma sample_hash_laws: "hash_laws sample_iface"
  by (auto simp: hash_laws_def sample_iface_def base_iface_def byte_def dest: letters_range)

lemma sample_cipher_laws: "cipher_laws sample_iface"
  by (auto simp: cipher_laws_def sample_iface_def base_iface_def sample_decrypt_def graphic_def
      dest: letters_range) (auto simp: byte_def dest: letters_range)

lemma letters_inject [simp]: "letters s = letters t \<longleftrightarrow> s = t"
  by (metis option.inject unletters_letters)

lemma sample_digest_inj: "inj_on (\<lambda>s. if_hex sample_iface (if_sha256 sample_iface s)) A"
  by (simp add: inj_on_def sample_iface_def base_iface_def)

end
