(* ===== verification/Crypto.thy ===== *)
theory Crypto
  imports Sample
begin

text \<open>
  \<open>src/crypto.rs\<close>: the AES-256-GCM cipher of the broker's secrets and of the local vault. The
  primitives (AES-GCM, base64, the random generator) are the interface's; the serialised form
  \<open><algorithm>|<key id>|<base64 of IV and ciphertext>\<close>, the checks and the errors are modelled.
\<close>

definition IV_SIZE :: nat where
  "IV_SIZE = 12"

definition ALGORITHM :: string where
  "ALGORITHM = ''AES-256-GCM''"

abbreviation BAR :: char where "BAR \<equiv> CHR ''|''"

record cipher =
  ci_key :: string
  ci_key_id :: string

definition from_base64_key :: "'x iface \<Rightarrow> string \<Rightarrow> string \<Rightarrow> (agent_error, cipher) result" where
  "from_base64_key I k key_id =
     bind_res (map_err (\<lambda>e. Crypto_err (''invalid base64 key: '' @ e)) (if_b64_decode I (trim k)))
       (\<lambda>bytes.
          if length bytes \<noteq> 32
          then Err (Crypto_err (''key must be 32 bytes (256-bit); got '' @ dec (length bytes)))
          else Ok \<lparr>ci_key = bytes, ci_key_id = key_id\<rparr>)"

definition decrypt_b64 :: "'x iface \<Rightarrow> cipher \<Rightarrow> string \<Rightarrow> (agent_error, string) result" where
  "decrypt_b64 I c b64 =
     bind_res (map_err (\<lambda>e. Crypto_err (''invalid base64 ciphertext: '' @ e))
                 (if_b64_decode I (trim b64)))
       (\<lambda>combined.
          if length combined \<le> IV_SIZE then Err (Crypto_err ''ciphertext too short'')
          else (let iv = take IV_SIZE combined; ct = drop IV_SIZE combined
                in bind_res (ok_or (Crypto_err ''decryption failed (bad key or tampered data)'')
                               (if_aes_decrypt I (ci_key c) iv ct))
                     (\<lambda>plain. if utf8_valid plain then Ok plain
                              else Err (Crypto_err (''plaintext not UTF-8: '' @ if_utf8_msg I plain)))))"

definition decrypt_serialized :: "'x iface \<Rightarrow> cipher \<Rightarrow> string \<Rightarrow> (agent_error, string) result" where
  "decrypt_serialized I c s =
     (case rsplit_on BAR s of
        [] \<Rightarrow> Err (Crypto_err ''malformed serialized secret'')
      | b64 # _ \<Rightarrow> decrypt_b64 I c b64)"

definition encrypt_serialized :: "'x iface \<Rightarrow> cipher \<Rightarrow> string
    \<Rightarrow> ('x world, (agent_error, string) result) act" where
  "encrypt_serialized I c plaintext =
     seqM (callM (if_fill I IV_SIZE)) (\<lambda>iv.
       liftM (bind_res (ok_or (Crypto_err ''encryption failed'')
                          (if_aes_encrypt I (ci_key c) iv plaintext))
         (\<lambda>ct. Ok (ALGORITHM @ ''|'' @ ci_key_id c @ ''|'' @ if_b64_encode I (iv @ ct)))))"

definition generate_base64_key :: "'x iface \<Rightarrow> ('x world, string) act" where
  "generate_base64_key I = seqM (callM (if_fill I 32)) (\<lambda>bytes. retM (if_b64_encode I bytes))"

text \<open>\<open>fill_bytes\<close> fills the whole array it is given.\<close>

definition fill_laws :: "'x iface \<Rightarrow> bool" where
  "fill_laws I \<longleftrightarrow> (\<forall>n x. length (fst (if_fill I n x)) = n)"

section \<open>Properties\<close>

lemma trim_b64:
  assumes "cipher_laws I"
  shows "trim (if_b64_encode I b) = if_b64_encode I b"
proof (cases "if_b64_encode I b = []")
  case False
  moreover from False have "graphic (hd (if_b64_encode I b))" "graphic (last (if_b64_encode I b))"
    using assms hd_in_set [OF False] last_in_set [OF False] unfolding cipher_laws_def by metis+
  ultimately show ?thesis by (rule trim_graphic)
qed simp

lemma b64_no_bar: "cipher_laws I \<Longrightarrow> BAR \<notin> set (if_b64_encode I b)"
  by (auto simp: cipher_laws_def)

lemma b64_decode_encode: "cipher_laws I \<Longrightarrow> if_b64_decode I (trim (if_b64_encode I b)) = Ok b"
  by (simp add: trim_b64) (simp add: cipher_laws_def)

lemma decrypt_last_part: "BAR \<notin> set b \<Longrightarrow> decrypt_serialized I c (s @ BAR # b) = decrypt_b64 I c b"
  by (simp add: decrypt_serialized_def rsplit_on_last)

lemma encrypt_run:
  "encrypt_serialized I c p w =
     (let iv = fst (if_fill I IV_SIZE (w_ext w)) in
      (Done (case if_aes_encrypt I (ci_key c) iv p of
               Some ct \<Rightarrow> Ok (ALGORITHM @ ''|'' @ ci_key_id c @ ''|'' @ if_b64_encode I (iv @ ct))
             | None \<Rightarrow> Err (Crypto_err ''encryption failed'')),
       w\<lparr>w_ext := snd (if_fill I IV_SIZE (w_ext w))\<rparr>))"
  by (auto simp: encrypt_serialized_def seqM_def callM_def liftM_def retM_def Let_def
      split: prod.splits option.splits)

lemma decrypt_encrypted:
  assumes "cipher_laws I" "fill_laws I" "utf8_valid p"
    and "encrypt_serialized I c p w = (Done (Ok s), w')" "ci_key c' = ci_key c"
  shows "decrypt_serialized I c' s = Ok p \<and> starts_with (ALGORITHM @ ''|'' @ ci_key_id c @ ''|'') s"
proof -
  let ?iv = "fst (if_fill I IV_SIZE (w_ext w))"
  obtain ct where ct: "if_aes_encrypt I (ci_key c) ?iv p = Some ct"
    and s: "s = (ALGORITHM @ ''|'' @ ci_key_id c) @ BAR # if_b64_encode I (?iv @ ct)"
    using assms(4) by (auto simp: encrypt_run Let_def split: option.splits)
  have iv: "length ?iv = IV_SIZE" using assms(2) by (simp add: fill_laws_def)
  have dec: "if_aes_decrypt I (ci_key c) ?iv ct = Some p" "ct \<noteq> []"
    using assms(1) ct by (auto simp: cipher_laws_def)
  have "decrypt_b64 I c' (if_b64_encode I (?iv @ ct)) = Ok p"
    using dec iv assms(3,5) by (simp add: decrypt_b64_def b64_decode_encode [OF assms(1)])
  then have "decrypt_serialized I c' s = Ok p"
    unfolding s by (simp only: decrypt_last_part [OF b64_no_bar [OF assms(1)]])
  moreover have "starts_with (ALGORITHM @ ''|'' @ ci_key_id c @ ''|'') s"
    unfolding s starts_with_prefix by (simp add: prefix_def)
  ultimately show ?thesis by simp
qed

text \<open>
  C30. Decrypting what \<open>encrypt_serialized\<close> produced gives the plaintext back, for any cipher with
  the same key (the key id of the reader does not matter), and the produced form starts with the
  algorithm and the writer's key id.
\<close>

theorem encrypt_decrypt_roundtrip:
  assumes "cipher_laws I" "fill_laws I" "utf8_valid p"
    and "encrypt_serialized I c p w = (Done (Ok s), w')" "ci_key c' = ci_key c"
  shows "decrypt_serialized I c' s = Ok p \<and> starts_with (ALGORITHM @ ''|'' @ ci_key_id c @ ''|'') s"
  using assms by (rule decrypt_encrypted)

lemma sample_fill_laws: "fill_laws sample_iface"
  by (simp add: fill_laws_def sample_iface_def base_iface_def)

definition sample_cipher :: cipher where
  "sample_cipher = \<lparr>ci_key = replicate 32 (CHR ''k''), ci_key_id = ''local''\<rparr>"

theorem encrypt_decrypt_roundtrip_witness:
  "\<exists>s w'. encrypt_serialized sample_iface sample_cipher ''hunter2'' sample_world = (Done (Ok s), w')
    \<and> decrypt_serialized sample_iface (sample_cipher\<lparr>ci_key_id := ''other''\<rparr>) s = Ok ''hunter2''
    \<and> starts_with (ALGORITHM @ ''|'' @ ci_key_id sample_cipher @ ''|'') s"
proof -
  obtain s w' where e:
    "encrypt_serialized sample_iface sample_cipher ''hunter2'' sample_world = (Done (Ok s), w')"
    by (simp add: encrypt_run sample_iface_def base_iface_def)
  have "utf8_valid ''hunter2''" by (rule utf8_valid_ascii) (simp add: byte_def)
  from encrypt_decrypt_roundtrip [OF sample_cipher_laws sample_fill_laws this e,
      of "sample_cipher\<lparr>ci_key_id := ''other''\<rparr>"] e
  show ?thesis by simp
qed

text \<open>
  C38. Decryption succeeds exactly when the last part of the text is base64 of more than 12 bytes
  whose AES-GCM opening under the key is valid UTF-8; the algorithm and key id in front are not
  looked at. Every other input gives a crypto error, never a panic.
\<close>

theorem decrypt_serialized_iff:
  "(decrypt_serialized I c s = Ok p \<longleftrightarrow>
     (\<exists>b. if_b64_decode I (trim (last (split_on BAR s))) = Ok b \<and> 12 < length b
        \<and> if_aes_decrypt I (ci_key c) (take 12 b) (drop 12 b) = Some p \<and> utf8_valid p))
   \<and> ((\<exists>p. decrypt_serialized I c s = Ok p) \<or> (\<exists>m. decrypt_serialized I c s = Err (Crypto_err m)))"
proof -
  have d: "decrypt_serialized I c s = decrypt_b64 I c (last (split_on BAR s))"
    by (cases "split_on BAR s" rule: rev_cases) (auto simp: decrypt_serialized_def rsplit_on_def)
  have "decrypt_b64 I c x = Ok p \<longleftrightarrow>
     (\<exists>b. if_b64_decode I (trim x) = Ok b \<and> 12 < length b
        \<and> if_aes_decrypt I (ci_key c) (take 12 b) (drop 12 b) = Some p \<and> utf8_valid p)" for x
    by (auto simp: decrypt_b64_def IV_SIZE_def Let_def bind_res_Ok not_le split: if_splits)
  note ok = this
  have err: "\<exists>m. e = Crypto_err m" if "decrypt_b64 I c x = Err e" for x e
    using that by (auto simp: decrypt_b64_def Let_def result_inv split: if_splits)
  show ?thesis unfolding d
  proof (intro conjI)
    let ?x = "last (split_on BAR s)"
    show "(\<exists>p. decrypt_b64 I c ?x = Ok p) \<or> (\<exists>m. decrypt_b64 I c ?x = Err (Crypto_err m))"
      using err [of ?x] by (cases "decrypt_b64 I c ?x") auto
  qed (rule ok)
qed

text \<open>
  A key text is accepted exactly when, trimmed, it is base64 of 32 bytes; keys of another
  length are rejected with an error that names the length. A generated key is accepted.
\<close>

theorem key_length_checked:
  "(from_base64_key I k kid = Ok c \<longleftrightarrow>
      (\<exists>b. if_b64_decode I (trim k) = Ok b \<and> length b = 32 \<and> c = \<lparr>ci_key = b, ci_key_id = kid\<rparr>))
   \<and> (cipher_laws I \<and> fill_laws I \<and> generate_base64_key I w = (Done g, w') \<longrightarrow>
        is_ok (from_base64_key I g kid))"
proof -
  have "from_base64_key I k kid = Ok c \<longleftrightarrow>
      (\<exists>b. if_b64_decode I (trim k) = Ok b \<and> length b = 32 \<and> c = \<lparr>ci_key = b, ci_key_id = kid\<rparr>)"
    by (auto simp: from_base64_key_def bind_res_Ok split: if_splits)
  moreover have "is_ok (from_base64_key I g kid)"
    if "cipher_laws I" "fill_laws I" "generate_base64_key I w = (Done g, w')"
  proof -
    have g: "g = if_b64_encode I (fst (if_fill I 32 (w_ext w)))"
      using that(3) by (auto simp: generate_base64_key_def seqM_def callM_def retM_def split: prod.splits)
    show ?thesis
      using that(2) by (simp add: from_base64_key_def g b64_decode_encode [OF that(1)] fill_laws_def)
  qed
  ultimately show ?thesis by blast
qed

theorem key_length_checked_witness:
  "\<exists>g w'. generate_base64_key sample_iface sample_world = (Done g, w')
     \<and> is_ok (from_base64_key sample_iface g ''local'')"
proof -
  obtain g w' where g: "generate_base64_key sample_iface sample_world = (Done g, w')"
    by (simp add: generate_base64_key_def seqM_def callM_def retM_def sample_iface_def base_iface_def)
  with key_length_checked [of sample_iface "[]" "''local''" sample_cipher sample_world g w']
  show ?thesis by (simp add: sample_cipher_laws sample_fill_laws)
qed

end
