(* ===== verification/Config.thy ===== *)
theory Config
  imports Crypto
begin

text \<open>
  \<open>src/config.rs\<close>: the configuration file, the resolution of secrets, and the merge of the
  broker's live settings. A section is a record; reading it from a TOML tree follows the derive
  attributes (required fields, defaults, \<open>Option\<close> fields). The environment variables are the
  world's.
\<close>

section \<open>The file\<close>

datatype mode = Ad | Db

fun mode_as_str :: "mode \<Rightarrow> string" where
  "mode_as_str Ad = ''ad''"
| "mode_as_str Db = ''db''"

record agent_section =
  ag_id :: string
  ag_mode :: mode
  ag_poll_interval_secs :: u64
  ag_audit_log :: string
  ag_directory_integration_id :: "string option"

definition default_poll :: u64 where
  "default_poll = 30"

definition default_audit_path :: string where
  "default_audit_path = ''./nexus-agent.audit.jsonl''"

record server_section =
  sv_base_url :: string
  sv_agent_token :: string
  sv_secret_key :: string
  sv_verify_tls :: bool

definition default_true :: bool where
  "default_true = True"

record ad_section =
  ad_url :: string
  ad_bind_dn :: string
  ad_bind_password :: string
  ad_base_dn :: string
  ad_use_kerberos :: bool
  ad_password_writeback :: bool

record db_section =
  db_url :: string
  db_driver :: string
  db_table :: string
  db_key_column :: string
  db_fields :: "(string \<times> string) list"
  db_push_path :: string
  db_push_secret :: string
  db_writeback :: bool
  db_writeback_pull_path :: "string option"

record config =
  cf_agent :: agent_section
  cf_server :: server_section
  cf_ad :: "ad_section option"
  cf_db :: "db_section option"

subsection \<open>Reading\<close>

text \<open>\<open>rename_all = "lowercase"\<close>.\<close>

definition de_mode :: "json \<Rightarrow> mode option" where
  "de_mode j = (case de_string j of
      Some s \<Rightarrow> if s = ''ad'' then Some Ad else if s = ''db'' then Some Db else None
    | None \<Rightarrow> None)"

definition de_agent :: "json \<Rightarrow> agent_section option" where
  "de_agent j =
     (case de_struct [(''id'', False), (''mode'', False), (''poll_interval_secs'', True),
                      (''audit_log'', True), (''directory_integration_id'', True)] j of
        Some [a, b, c, d, e] \<Rightarrow>
          do { i \<leftarrow> req de_string a; m \<leftarrow> req de_mode b; p \<leftarrow> dflt default_poll de_u64 c;
               l \<leftarrow> dflt default_audit_path de_string d; dir \<leftarrow> opt de_string e;
               Some \<lparr>ag_id = i, ag_mode = m, ag_poll_interval_secs = p, ag_audit_log = l,
                     ag_directory_integration_id = dir\<rparr> }
      | _ \<Rightarrow> None)"

definition de_server :: "json \<Rightarrow> server_section option" where
  "de_server j =
     (case de_struct [(''base_url'', False), (''agent_token'', False), (''secret_key'', False),
                      (''verify_tls'', True)] j of
        Some [a, b, c, d] \<Rightarrow>
          do { u \<leftarrow> req de_string a; t \<leftarrow> req de_string b; k \<leftarrow> req de_string c;
               v \<leftarrow> dflt default_true de_bool d;
               Some \<lparr>sv_base_url = u, sv_agent_token = t, sv_secret_key = k, sv_verify_tls = v\<rparr> }
      | _ \<Rightarrow> None)"

definition de_ad :: "json \<Rightarrow> ad_section option" where
  "de_ad j =
     (case de_struct [(''url'', False), (''bind_dn'', False), (''bind_password'', False),
                      (''base_dn'', False), (''use_kerberos'', True), (''password_writeback'', True)] j of
        Some [a, b, c, d, e, f] \<Rightarrow>
          do { u \<leftarrow> req de_string a; bd \<leftarrow> req de_string b; bp \<leftarrow> req de_string c;
               base \<leftarrow> req de_string d; k \<leftarrow> dflt False de_bool e; pw \<leftarrow> dflt default_true de_bool f;
               Some \<lparr>ad_url = u, ad_bind_dn = bd, ad_bind_password = bp, ad_base_dn = base,
                     ad_use_kerberos = k, ad_password_writeback = pw\<rparr> }
      | _ \<Rightarrow> None)"

definition de_db :: "json \<Rightarrow> db_section option" where
  "de_db j =
     (case de_struct [(''url'', False), (''driver'', False), (''table'', False),
                      (''key_column'', False), (''fields'', False), (''push_path'', False),
                      (''push_secret'', False), (''writeback'', True),
                      (''writeback_pull_path'', True)] j of
        Some [a, b, c, d, e, f, g, h, i] \<Rightarrow>
          do { u \<leftarrow> req de_string a; dr \<leftarrow> req de_string b; t \<leftarrow> req de_string c;
               k \<leftarrow> req de_string d; fs \<leftarrow> req de_str_map e; pp \<leftarrow> req de_string f;
               ps \<leftarrow> req de_string g; wb \<leftarrow> dflt False de_bool h; wp \<leftarrow> opt de_string i;
               Some \<lparr>db_url = u, db_driver = dr, db_table = t, db_key_column = k, db_fields = fs,
                     db_push_path = pp, db_push_secret = ps, db_writeback = wb,
                     db_writeback_pull_path = wp\<rparr> }
      | _ \<Rightarrow> None)"

definition de_config :: "json \<Rightarrow> config option" where
  "de_config j =
     (case de_struct [(''agent'', False), (''server'', False), (''ad'', False), (''db'', False)] j of
        Some [a, b, c, d] \<Rightarrow>
          do { ag \<leftarrow> req de_agent a; sv \<leftarrow> req de_server b; ad \<leftarrow> opt de_ad c; db \<leftarrow> opt de_db d;
               Some \<lparr>cf_agent = ag, cf_server = sv, cf_ad = ad, cf_db = db\<rparr> }
      | _ \<Rightarrow> None)"

definition validate :: "config \<Rightarrow> (agent_error, unit) result" where
  "validate c =
     (if ag_mode (cf_agent c) = Ad \<and> cf_ad c = None
      then Err (Config_err ''mode=ad requires an [ad] section'')
      else if ag_mode (cf_agent c) = Db \<and> cf_db c = None
      then Err (Config_err ''mode=db requires a [db] section'')
      else Ok ())"

definition load :: "'x iface \<Rightarrow> string \<Rightarrow> 'x world \<Rightarrow> (agent_error, config) result" where
  "load I p w =
     bind_res
       (case fs_open w p of
          Opened c \<Rightarrow> if utf8_valid c then Ok c
            else Err (Config_err (''reading config: stream did not contain valid UTF-8''))
        | Not_found \<Rightarrow> Err (Config_err ''reading config: No such file or directory (os error 2)'')
        | Open_failed m \<Rightarrow> Err (Config_err (''reading config: '' @ m)))
       (\<lambda>raw. bind_res
          (ok_or (Config_err (''parsing TOML: '' @ if_de_msg I ''Config'' raw))
             (Option.bind (if_toml_of I raw) de_config))
          (\<lambda>cfg. bind_res (validate cfg) (\<lambda>_. Ok cfg)))"

section \<open>Secrets\<close>

definition vault :: "'x iface \<Rightarrow> (string \<rightharpoonup> string) \<Rightarrow> (agent_error, cipher option) result" where
  "vault I env =
     (case env_var env ''NEXUS_AGENT_KEY'' of
        Some k \<Rightarrow>
          if trim k \<noteq> [] then bind_res (from_base64_key I k ''local'') (\<lambda>c. Ok (Some c)) else Ok None
      | None \<Rightarrow> Ok None)"

definition resolve :: "'x iface \<Rightarrow> (string \<rightharpoonup> string) \<Rightarrow> string \<Rightarrow> (agent_error, string) result" where
  "resolve I env raw =
     (case strip_prefix ''env:'' raw of
        Some var \<Rightarrow>
          ok_or (Config_err (''env var '' @ CHR 0x27 # var @ CHR 0x27 # '' not set'')) (env_var env var)
      | None \<Rightarrow>
          (case strip_prefix ''enc:'' raw of
             Some enc \<Rightarrow>
               bind_res (bind_res (vault I env)
                           (ok_or (Config_err ''an enc: secret requires NEXUS_AGENT_KEY to be set'')))
                 (\<lambda>c. decrypt_serialized I c enc)
           | None \<Rightarrow> Ok raw))"

text \<open>The log-safe description of a secret value: where it comes from, and its length.\<close>

definition secret_source :: "string \<Rightarrow> string" where
  "secret_source raw =
     (case strip_prefix ''env:'' raw of
        Some v \<Rightarrow> ''env:'' @ v
      | None \<Rightarrow> if starts_with ''enc:'' raw then ''enc:(vault)'' else ''inline'')"

definition describe :: "'x iface \<Rightarrow> (string \<rightharpoonup> string) \<Rightarrow> string \<Rightarrow> string" where
  "describe I env raw =
     (let src = secret_source raw
      in case resolve I env raw of
           Ok v \<Rightarrow> if trim v = [] then ''['' @ src @ ''] -> EMPTY/unresolved''
                   else ''['' @ src @ ''] -> ok ('' @ dec (char_count v) @ '' chars)''
         | Err e \<Rightarrow> ''['' @ src @ ''] -> ERROR: '' @ error_str e)"

definition server_cipher :: "'x iface \<Rightarrow> (string \<rightharpoonup> string) \<Rightarrow> config \<Rightarrow> (agent_error, cipher) result" where
  "server_cipher I env c =
     bind_res (resolve I env (sv_secret_key (cf_server c)))
       (\<lambda>k. from_base64_key I k ''local-default'')"

section \<open>The broker's live settings\<close>

record remote_directory =
  rd_url :: "string option"
  rd_bind_dn :: "string option"
  rd_base_dn :: "string option"
  rd_password_writeback :: "bool option"

record remote_config =
  rc_mode :: "string option"
  rc_poll_interval_secs :: "u64 option"
  rc_directory :: "remote_directory option"

definition de_remote_directory :: "json \<Rightarrow> remote_directory option" where
  "de_remote_directory j =
     (case de_struct [(''url'', True), (''bind_dn'', True), (''base_dn'', True),
                      (''password_writeback'', True)] j of
        Some [a, b, c, d] \<Rightarrow>
          do { u \<leftarrow> opt de_string a; bd \<leftarrow> opt de_string b; base \<leftarrow> opt de_string c; pw \<leftarrow> opt de_bool d;
               Some \<lparr>rd_url = u, rd_bind_dn = bd, rd_base_dn = base, rd_password_writeback = pw\<rparr> }
      | _ \<Rightarrow> None)"

definition de_remote_config :: "json \<Rightarrow> remote_config option" where
  "de_remote_config j =
     (case de_struct [(''mode'', True), (''poll_interval_secs'', True), (''directory'', True)] j of
        Some [a, b, c] \<Rightarrow>
          do { m \<leftarrow> opt de_string a; p \<leftarrow> opt de_u64 b; d \<leftarrow> opt de_remote_directory c;
               Some \<lparr>rc_mode = m, rc_poll_interval_secs = p, rc_directory = d\<rparr> }
      | _ \<Rightarrow> None)"

text \<open>A setting of the broker counts when it is given and not empty.\<close>

definition given_or :: "string option \<Rightarrow> string \<Rightarrow> string" where
  "given_or v old = (case v of Some s \<Rightarrow> if s \<noteq> [] then s else old | None \<Rightarrow> old)"

definition apply_directory :: "remote_directory \<Rightarrow> ad_section \<Rightarrow> ad_section" where
  "apply_directory d ad =
     (let ad = ad\<lparr>ad_url := given_or (rd_url d) (ad_url ad)\<rparr>;
          ad = ad\<lparr>ad_bind_dn := given_or (rd_bind_dn d) (ad_bind_dn ad)\<rparr>;
          ad = ad\<lparr>ad_base_dn := given_or (rd_base_dn d) (ad_base_dn ad)\<rparr>
      in case rd_password_writeback d of
           Some b \<Rightarrow> ad\<lparr>ad_password_writeback := b\<rparr> | None \<Rightarrow> ad)"

definition apply_remote :: "remote_config \<Rightarrow> config \<Rightarrow> config" where
  "apply_remote r c =
     (let c = (case rc_poll_interval_secs r of
                 Some p \<Rightarrow> if 0 < p
                   then c\<lparr>cf_agent := (cf_agent c)\<lparr>ag_poll_interval_secs := p\<rparr>\<rparr> else c
               | None \<Rightarrow> c)
      in case (rc_directory r, cf_ad c) of
           (Some d, Some ad) \<Rightarrow> c\<lparr>cf_ad := Some (apply_directory d ad)\<rparr>
         | _ \<Rightarrow> c)"

section \<open>Properties\<close>

lemma resolve_env [simp]:
  "resolve I env (''env:'' @ v)
     = ok_or (Config_err (''env var '' @ CHR 0x27 # v @ CHR 0x27 # '' not set'')) (env v)"
  unfolding resolve_def strip_prefix_append by (simp add: env_var_def)

lemma resolve_enc:
  "resolve I env (''enc:'' @ s) =
     bind_res (bind_res (vault I env)
                 (ok_or (Config_err ''an enc: secret requires NEXUS_AGENT_KEY to be set'')))
       (\<lambda>c. decrypt_serialized I c s)"
proof -
  have "strip_prefix ''env:'' (''enc:'' @ s) = None" by simp
  then show ?thesis unfolding resolve_def strip_prefix_append by simp
qed

lemma resolve_inline:
  "\<not> starts_with ''env:'' raw \<Longrightarrow> \<not> starts_with ''enc:'' raw \<Longrightarrow> resolve I env raw = Ok raw"
  by (simp add: resolve_def starts_with_def)

text \<open>
  C29. A secret encrypted with the local vault and stored in its \<open>enc:\<close> form resolves, in the same
  environment, to the secret; without the vault's key the \<open>enc:\<close> form does not resolve at all.
\<close>

theorem vault_secret_roundtrip:
  assumes "cipher_laws I" "fill_laws I" "utf8_valid p"
    and "vault I env = Ok (Some c)" "encrypt_serialized I c p w = (Done (Ok s), w')"
  shows "resolve I env (''enc:'' @ s) = Ok p
    \<and> (\<forall>env'. env' ''NEXUS_AGENT_KEY'' = None \<longrightarrow> \<not> is_ok (resolve I env' (''enc:'' @ s)))"
proof -
  have "decrypt_serialized I c s = Ok p"
    using decrypt_encrypted [OF assms(1-3,5), of c] by simp
  with assms(4) show ?thesis
    unfolding resolve_enc by (simp add: vault_def env_var_def)
qed

definition sample_env :: "string \<rightharpoonup> string" where
  "sample_env = [''NEXUS_AGENT_KEY'' \<mapsto> letters (ci_key sample_cipher)]"

lemma sample_vault: "vault sample_iface sample_env = Ok (Some sample_cipher)"
proof -
  have b64: "if_b64_encode sample_iface = letters" by (simp add: sample_iface_def base_iface_def)
  have t: "trim (letters s) = letters s" for s
    using trim_b64 [OF sample_cipher_laws, of s] by (simp add: b64)
  have "if_b64_decode sample_iface (letters s) = Ok s" for s
    by (simp add: sample_iface_def base_iface_def)
  moreover have "letters (ci_key sample_cipher) \<noteq> []" by (simp add: sample_cipher_def)
  ultimately show ?thesis
    by (simp add: vault_def env_var_def sample_env_def from_base64_key_def t)
      (simp add: sample_cipher_def)
qed

theorem vault_secret_roundtrip_witness:
  "\<exists>s w'. encrypt_serialized sample_iface sample_cipher ''hunter2'' sample_world = (Done (Ok s), w')
     \<and> resolve sample_iface sample_env (''enc:'' @ s) = Ok ''hunter2''
     \<and> \<not> is_ok (resolve sample_iface Map.empty (''enc:'' @ s))"
proof -
  obtain s w' where e:
    "encrypt_serialized sample_iface sample_cipher ''hunter2'' sample_world = (Done (Ok s), w')"
    by (simp add: encrypt_run sample_iface_def base_iface_def)
  have "utf8_valid ''hunter2''" by (rule utf8_valid_ascii) (simp add: byte_def)
  from vault_secret_roundtrip [OF sample_cipher_laws sample_fill_laws this sample_vault e] e
  show ?thesis by auto
qed

text \<open>
  The description of a secret that is written to the log depends on the secret only through
  its length in characters and whether it is blank: two secrets from the same kind of source that
  agree in these are described by the same text.
\<close>

theorem describe_hides_secret:
  assumes "resolve I env raw = Ok v" "resolve I env' raw' = Ok v'"
    and "secret_source raw = secret_source raw'"
    and "char_count v = char_count v'" "trim v = [] \<longleftrightarrow> trim v' = []"
  shows "describe I env raw = describe I env' raw'"
  using assms by (simp add: describe_def Let_def)

theorem describe_hides_secret_witness:
  "describe sample_iface Map.empty ''abcd'' = describe sample_iface Map.empty ''wxyz''"
proof (rule describe_hides_secret [of _ _ "''abcd''" "''abcd''" _ "''wxyz''" "''wxyz''"])
  have "trim ''abcd'' = ''abcd''" "trim ''wxyz'' = ''wxyz''"
    by (rule trim_graphic; simp add: graphic_def byte_def)+
  then show "trim ''abcd'' = [] \<longleftrightarrow> trim ''wxyz'' = []" by simp
qed (simp_all add: resolve_def secret_source_def starts_with_def char_count_def cont_byte_def byte_def)

text \<open>
  C40. A configuration that \<open>load\<close> returns has the section its mode needs.
\<close>

theorem load_has_mode_section:
  assumes "load I p w = Ok c"
  shows "(ag_mode (cf_agent c) = Ad \<longrightarrow> cf_ad c \<noteq> None) \<and> (ag_mode (cf_agent c) = Db \<longrightarrow> cf_db c \<noteq> None)"
  using assms by (auto simp: load_def result_inv validate_def split: if_splits)

definition sample_config_tree :: json where
  "sample_config_tree = JObj
     [(''agent'', JObj [(''id'', JStr ''dc-01''), (''mode'', JStr ''ad'')]),
      (''server'', JObj [(''base_url'', JStr ''https://idp''), (''agent_token'', JStr ''env:TOKEN''),
                       (''secret_key'', JStr ''env:KEY'')]),
      (''ad'', JObj [(''url'', JStr ''ldaps://dc01''), (''bind_dn'', JStr ''CN=svc''),
                   (''bind_password'', JStr ''env:PW''), (''base_dn'', JStr ''DC=corp'')])]"

definition sample_config :: config where
  "sample_config =
     \<lparr>cf_agent = \<lparr>ag_id = ''dc-01'', ag_mode = Ad, ag_poll_interval_secs = 30,
                  ag_audit_log = ''./nexus-agent.audit.jsonl'', ag_directory_integration_id = None\<rparr>,
      cf_server = \<lparr>sv_base_url = ''https://idp'', sv_agent_token = ''env:TOKEN'',
                   sv_secret_key = ''env:KEY'', sv_verify_tls = True\<rparr>,
      cf_ad = Some \<lparr>ad_url = ''ldaps://dc01'', ad_bind_dn = ''CN=svc'', ad_bind_password = ''env:PW'',
                    ad_base_dn = ''DC=corp'', ad_use_kerberos = False, ad_password_writeback = True\<rparr>,
      cf_db = None\<rparr>"

lemma sample_config_read: "de_config sample_config_tree = Some sample_config"
  by (simp add: sample_config_tree_def sample_config_def de_config_def de_agent_def de_server_def
      de_ad_def de_struct_def req_def opt_def dflt_def de_string_def de_mode_def
      default_poll_def default_audit_path_def default_true_def)

lemma sample_load:
  "load sample_iface ''c.toml''
     (sample_world\<lparr>w_files := [''c.toml'' \<mapsto> show_tree sample_config_tree]\<rparr>) = Ok sample_config"
proof -
  have "utf8_valid (show_tree sample_config_tree)"
    by (rule clean_line_valid) (rule show_tree_clean)
  moreover have "if_toml_of sample_iface (show_tree sample_config_tree) = Some sample_config_tree"
    by (simp add: sample_iface_def base_iface_def parse_show)
  ultimately show ?thesis
    by (simp add: load_def fs_open_def sample_world_def sample_config_read)
      (simp add: validate_def sample_config_def)
qed

theorem load_has_mode_section_witness:
  "load sample_iface ''c.toml''
     (sample_world\<lparr>w_files := [''c.toml'' \<mapsto> show_tree sample_config_tree]\<rparr>) = Ok sample_config
   \<and> ag_mode (cf_agent sample_config) = Ad \<and> cf_ad sample_config \<noteq> None"
  using load_has_mode_section [OF sample_load] sample_load by (simp add: sample_config_def)

lemma given_or_idem [simp]: "given_or v (given_or v s) = given_or v s"
  by (simp add: given_or_def split: option.split)

lemma apply_directory_idem: "apply_directory d (apply_directory d ad) = apply_directory d ad"
  by (auto simp: apply_directory_def Let_def split: option.split)

text \<open>
  C33. The broker's live settings change the directory's connection settings and a positive poll
  interval only. The agent's identity and mode, its secrets (bind password, token, key), the
  server and database sections and the choice of bind method stay as configured locally, a
  positive interval stays positive, a configuration with its mode's section keeps it, and applying
  the same settings twice is applying them once.
\<close>

theorem apply_remote_connection_only:
  shows "cf_server (apply_remote r c) = cf_server c \<and> cf_db (apply_remote r c) = cf_db c
    \<and> cf_agent (apply_remote r c)
        = (cf_agent c)\<lparr>ag_poll_interval_secs := ag_poll_interval_secs (cf_agent (apply_remote r c))\<rparr>
    \<and> map_option (\<lambda>ad. (ad_bind_password ad, ad_use_kerberos ad)) (cf_ad (apply_remote r c))
        = map_option (\<lambda>ad. (ad_bind_password ad, ad_use_kerberos ad)) (cf_ad c)
    \<and> (0 < ag_poll_interval_secs (cf_agent c) \<longrightarrow> 0 < ag_poll_interval_secs (cf_agent (apply_remote r c)))
    \<and> (is_ok (validate c) \<longrightarrow> is_ok (validate (apply_remote r c)))
    \<and> apply_remote r (apply_remote r c) = apply_remote r c"
  (is "?server \<and> ?db \<and> ?agent \<and> ?ad \<and> ?poll \<and> ?valid \<and> ?idem")
proof (intro conjI)
  show ?server ?db ?agent ?poll
    by (auto simp: apply_remote_def Let_def split: option.split)
  show ?ad
    by (auto simp: apply_remote_def apply_directory_def Let_def split: option.split)
  show ?valid
    by (auto simp: apply_remote_def validate_def Let_def split: option.split)
  show ?idem
    by (auto simp: apply_remote_def Let_def apply_directory_idem split: option.split)
qed

definition sample_remote :: remote_config where
  "sample_remote =
     \<lparr>rc_mode = None, rc_poll_interval_secs = Some 5,
      rc_directory = Some \<lparr>rd_url = Some ''ldaps://dc02'', rd_bind_dn = Some [], rd_base_dn = None,
                           rd_password_writeback = None\<rparr>\<rparr>"

theorem apply_remote_connection_only_witness:
  "is_ok (validate sample_config) \<and> is_ok (validate (apply_remote sample_remote sample_config))
   \<and> map_option (\<lambda>ad. (ad_url ad, ad_bind_dn ad, ad_bind_password ad)) (cf_ad (apply_remote sample_remote sample_config))
       = Some (''ldaps://dc02'', ''CN=svc'', ''env:PW'')"
proof -
  have "is_ok (validate sample_config)" by (simp add: validate_def sample_config_def)
  moreover from this have "is_ok (validate (apply_remote sample_remote sample_config))"
    using apply_remote_connection_only [of sample_remote sample_config] by blast
  moreover have "map_option (\<lambda>ad. (ad_url ad, ad_bind_dn ad, ad_bind_password ad))
       (cf_ad (apply_remote sample_remote sample_config)) = Some (''ldaps://dc02'', ''CN=svc'', ''env:PW'')"
    by (simp add: apply_remote_def apply_directory_def given_or_def sample_remote_def sample_config_def)
  ultimately show ?thesis by blast
qed

end
