(* ===== verification/Audit_Log.thy ===== *)
theory Audit_Log
  imports World
begin

text \<open>
  \<open>src/audit.rs\<close>: the tamper-evident event log. \<open>audit_open\<close>, \<open>audit_append\<close> and \<open>verify\<close> are the
  operations of \<open>AuditLog\<close>; the on-disk file is a string of lines in the model's disk.

  The specification is a list of records that form a \<open>chain\<close> from the genesis hash. \<open>log_holds\<close>
  relates an \<open>AuditLog\<close> and the disk to such a list; appending is adding one record at the end,
  opening finds the end of the list again, and verifying accepts exactly the chains. The locales
  \<open>hash_chain\<close> and \<open>sealed_chain\<close> hold the reasoning about chains, over any link relation and
  any digest.
\<close>

section \<open>Records and counters\<close>

definition GENESIS :: string where
  "GENESIS = replicate 64 (CHR ''0'')"

record audit_record =
  ar_seq :: u64
  ar_ts :: string
  ar_event :: string
  ar_detail :: json
  ar_prev_hash :: string
  ar_hash :: string

text \<open>Derived serialisation: the fields under their own names, in declaration order.\<close>

definition record_tree :: "audit_record \<Rightarrow> json" where
  "record_tree r = JObj [(''seq'', json_u64 (ar_seq r)), (''ts'', JStr (ar_ts r)),
     (''event'', JStr (ar_event r)), (''detail'', ar_detail r),
     (''prev_hash'', JStr (ar_prev_hash r)), (''hash'', JStr (ar_hash r))]"

definition de_record :: "json \<Rightarrow> audit_record option" where
  "de_record j =
     (case de_struct [(''seq'', False), (''ts'', False), (''event'', False), (''detail'', False),
                      (''prev_hash'', False), (''hash'', False)] j of
        Some [a, b, c, d, e, f] \<Rightarrow>
          do { sq \<leftarrow> req de_u64 a; ts \<leftarrow> req de_string b; ev \<leftarrow> req de_string c;
               dt \<leftarrow> req (\<lambda>v. Some (norm_value v)) d; pv \<leftarrow> req de_string e; h \<leftarrow> req de_string f;
               Some \<lparr>ar_seq = sq, ar_ts = ts, ar_event = ev, ar_detail = dt,
                     ar_prev_hash = pv, ar_hash = h\<rparr> }
      | _ \<Rightarrow> None)"

record sync_counters =
  c_inspected :: u64
  c_created :: u64
  c_updated :: u64
  c_disabled :: u64
  c_failed :: u64

definition no_counts :: sync_counters where
  "no_counts = \<lparr>c_inspected = 0, c_created = 0, c_updated = 0, c_disabled = 0, c_failed = 0\<rparr>"

definition record_ok :: "string \<Rightarrow> sync_counters \<Rightarrow> sync_counters" where
  "record_ok op c =
     (let c = c\<lparr>c_inspected := c_inspected c + 1\<rparr>
      in if op = ''CREATE_ACCOUNT'' then c\<lparr>c_created := c_created c + 1\<rparr>
         else if op = ''UPDATE_ATTRIBUTES'' \<or> op = ''ENABLE_ACCOUNT''
         then c\<lparr>c_updated := c_updated c + 1\<rparr>
         else if op = ''DISABLE_ACCOUNT'' then c\<lparr>c_disabled := c_disabled c + 1\<rparr>
         else c)"

definition record_failure :: "sync_counters \<Rightarrow> sync_counters" where
  "record_failure c = c\<lparr>c_inspected := c_inspected c + 1, c_failed := c_failed c + 1\<rparr>"

definition counters_tree :: "sync_counters \<Rightarrow> json" where
  "counters_tree c = json_obj [(''inspected'', json_u64 (c_inspected c)),
     (''created'', json_u64 (c_created c)), (''updated'', json_u64 (c_updated c)),
     (''disabled'', json_u64 (c_disabled c)), (''failed'', json_u64 (c_failed c))]"

section \<open>The log\<close>

record audit_log =
  al_path :: string
  al_last_seq :: u64
  al_last_hash :: string

text \<open>The bytes that are hashed for a record.\<close>

definition hash_input :: "'x iface \<Rightarrow> u64 \<Rightarrow> string \<Rightarrow> string \<Rightarrow> json \<Rightarrow> string \<Rightarrow> string" where
  "hash_input I sq ts ev dt prev =
     dec (unat sq) @ [NL] @ ts @ [NL] @ ev @ [NL] @ if_json_str I dt @ [NL] @ prev"

definition compute_hash :: "'x iface \<Rightarrow> u64 \<Rightarrow> string \<Rightarrow> string \<Rightarrow> json \<Rightarrow> string \<Rightarrow> string" where
  "compute_hash I sq ts ev dt prev = if_hex I (if_sha256 I (hash_input I sq ts ev dt prev))"

definition parse_record :: "'x iface \<Rightarrow> string \<Rightarrow> (agent_error, audit_record) result" where
  "parse_record I l =
     map_err (\<lambda>m. Audit_err (''corrupt audit line: '' @ m))
       (from_json_str I ''AuditRecord'' de_record l)"

text \<open>\<open>line?\<close> of the line iterator: a line that is not UTF-8 is an I/O error.\<close>

definition read_line :: "string \<Rightarrow> (agent_error, string) result" where
  "read_line l = (if utf8_valid l then Ok l
                  else Err (Io_err ''stream did not contain valid UTF-8''))"

fun open_lines :: "'x iface \<Rightarrow> string list \<Rightarrow> u64 \<Rightarrow> string
    \<Rightarrow> (agent_error, u64 \<times> string) result" where
  "open_lines I [] sq h = Ok (sq, h)"
| "open_lines I (l # ls) sq h =
     bind_res (read_line l) (\<lambda>l.
       if trim l = [] then open_lines I ls sq h
       else bind_res (parse_record I l) (\<lambda>r. open_lines I ls (ar_seq r) (ar_hash r)))"

definition audit_open :: "'x iface \<Rightarrow> string \<Rightarrow> 'x world \<Rightarrow> (agent_error, audit_log) result" where
  "audit_open I p w =
     bind_res
       (case fs_open w p of
          Opened c \<Rightarrow> open_lines I (buf_lines c) 0 GENESIS
        | Not_found \<Rightarrow> Ok (0, GENESIS)
        | Open_failed m \<Rightarrow> Err (Io_err m))
       (\<lambda>(sq, h). Ok \<lparr>al_path = p, al_last_seq = sq, al_last_hash = h\<rparr>)"

text \<open>The record that appending an event at time \<open>ts\<close> writes.\<close>

definition next_record :: "'x iface \<Rightarrow> audit_log \<Rightarrow> string \<Rightarrow> string \<Rightarrow> json \<Rightarrow> audit_record" where
  "next_record I al ts ev dt =
     (let sq = al_last_seq al + 1
      in \<lparr>ar_seq = sq, ar_ts = ts, ar_event = ev, ar_detail = dt,
          ar_prev_hash = al_last_hash al,
          ar_hash = compute_hash I sq ts ev dt (al_last_hash al)\<rparr>)"

definition set_head :: "audit_record \<Rightarrow> (audit_log \<times> 'x world, unit) act" where
  "set_head r s = (Done (), ((fst s)\<lparr>al_last_seq := ar_seq r, al_last_hash := ar_hash r\<rparr>, snd s))"

text \<open>
  \<open>audit_append\<close>: the sequence number wraps at \<open>u64\<close>'s bound (release build); the head in memory moves
  only after the line is on disk.
\<close>

definition audit_append :: "'x iface \<Rightarrow> string \<Rightarrow> json
    \<Rightarrow> (audit_log \<times> 'x world, (agent_error, audit_record) result) act" where
  "audit_append I ev dt =
     seqM (onSnd (callM (if_now I))) (\<lambda>ts s.
       let r = next_record I (fst s) ts ev dt
       in tryM (onSnd (fs_append (al_path (fst s)) (if_json_str I (record_tree r) @ [NL])))
            (\<lambda>_. seqM (set_head r) (\<lambda>_. retM (Ok r))) s)"

definition run_start :: "'x iface \<Rightarrow> string
    \<Rightarrow> (audit_log \<times> 'x world, (agent_error, unit) result) act" where
  "run_start I mode =
     tryM (audit_append I ''RUN_START'' (json_obj [(''mode'', JStr mode)])) (\<lambda>_. retM (Ok ()))"

definition summary :: "'x iface \<Rightarrow> string \<Rightarrow> sync_counters
    \<Rightarrow> (audit_log \<times> 'x world, (agent_error, unit) result) act" where
  "summary I mode c =
     tryM (audit_append I ''SYNC_SUMMARY''
             (json_obj [(''mode'', JStr mode), (''counts'', counters_tree c)]))
       (\<lambda>_. retM (Ok ()))"

record verify_report =
  vr_records :: u64
  vr_ok :: bool
  vr_broken_at :: "u64 option"

fun verify_lines :: "'x iface \<Rightarrow> string \<Rightarrow> u64 \<Rightarrow> u64 \<Rightarrow> string list
    \<Rightarrow> (agent_error, verify_report) result" where
  "verify_lines I prev expected count [] =
     Ok \<lparr>vr_records = count, vr_ok = True, vr_broken_at = None\<rparr>"
| "verify_lines I prev expected count (l # ls) =
     bind_res (read_line l) (\<lambda>l.
       if trim l = [] then verify_lines I prev expected count ls
       else bind_res (parse_record I l) (\<lambda>r.
         let recomputed = compute_hash I (ar_seq r) (ar_ts r) (ar_event r) (ar_detail r) prev
         in if ar_seq r \<noteq> expected \<or> ar_prev_hash r \<noteq> prev \<or> ar_hash r \<noteq> recomputed
            then Ok \<lparr>vr_records = count, vr_ok = False, vr_broken_at = Some (ar_seq r)\<rparr>
            else verify_lines I (ar_hash r) (expected + 1) (count + 1) ls))"

definition verify :: "'x iface \<Rightarrow> string \<Rightarrow> 'x world \<Rightarrow> (agent_error, verify_report) result" where
  "verify I p w =
     (case fs_open w p of
        Opened c \<Rightarrow> verify_lines I GENESIS 1 0 (buf_lines c)
      | Not_found \<Rightarrow> Ok \<lparr>vr_records = 0, vr_ok = True, vr_broken_at = None\<rparr>
      | Open_failed m \<Rightarrow> Err (Io_err m))"

end
