(* ===== verification/Server.thy ===== *)
theory Server
  imports Config Audit_Log
begin

text \<open>
  \<open>src/server.rs\<close>: the HTTP client of the broker. A method builds its request, sends it at an
  await point, checks the status, and decodes the body; each step's failure is a server error with
  the method's own wording. Heartbeat, run report and disconnect ignore every failure.
\<close>

section \<open>Wire types\<close>

record operation =
  op_id :: string
  op_type :: string
  op_user_id :: string
  op_user_email :: "string option"
  op_attributes_json :: "string option"
  op_encrypted_password :: "string option"
  op_directory_integration_id :: "string option"
  op_target_base_dn :: "string option"
  op_forest_context_json :: "string option"

definition de_operation :: "json \<Rightarrow> operation option" where
  "de_operation j =
     (case de_struct [(''id'', False), (''opType'', False), (''userId'', False), (''userEmail'', False),
                      (''attributesJson'', False), (''encryptedPassword'', False),
                      (''directoryIntegrationId'', False), (''targetBaseDn'', False),
                      (''forestContextJson'', False)] j of
        Some [a, b, c, d, e, f, g, h, i] \<Rightarrow>
          do { oid \<leftarrow> req de_string a; ty \<leftarrow> req de_string b; u \<leftarrow> req de_string c;
               em \<leftarrow> opt de_string d; at \<leftarrow> opt de_string e; pw \<leftarrow> opt de_string f;
               di \<leftarrow> opt de_string g; tb \<leftarrow> opt de_string h; fc \<leftarrow> opt de_string i;
               Some \<lparr>op_id = oid, op_type = ty, op_user_id = u, op_user_email = em,
                     op_attributes_json = at, op_encrypted_password = pw,
                     op_directory_integration_id = di, op_target_base_dn = tb,
                     op_forest_context_json = fc\<rparr> }
      | _ \<Rightarrow> None)"

definition de_envelope :: "json \<Rightarrow> operation list option" where
  "de_envelope j = (case de_struct [(''operations'', False)] j of
      Some [a] \<Rightarrow> req (de_vec de_operation) a | _ \<Rightarrow> None)"

record writeback_change =
  wc_key :: string
  wc_fields :: "(string \<times> string) list"

definition de_change :: "json \<Rightarrow> writeback_change option" where
  "de_change j = (case de_struct [(''key'', False), (''fields'', False)] j of
      Some [a, b] \<Rightarrow>
        do { k \<leftarrow> req de_string a; fs \<leftarrow> req de_str_map b; Some \<lparr>wc_key = k, wc_fields = fs\<rparr> }
    | _ \<Rightarrow> None)"

section \<open>The client\<close>

record server_client =
  sc_http :: http_client
  sc_base_url :: string
  sc_agent_token :: string
  sc_agent_id :: string

definition VERSION :: string where
  "VERSION = ''0.2.1''"

definition server_new :: "'x iface \<Rightarrow> string \<Rightarrow> string \<Rightarrow> string \<Rightarrow> bool
    \<Rightarrow> (agent_error, server_client) result" where
  "server_new I base_url token agent_id verify_tls =
     (let http = \<lparr>hc_timeout_secs = 30, hc_accept_invalid_certs = \<not> verify_tls,
                  hc_user_agent = ''nexus-agent/'' @ VERSION\<rparr>
      in bind_res (map_err (\<lambda>e. Server_err (''building HTTP client: '' @ e)) (if_http_build I http))
           (\<lambda>_. Ok \<lparr>sc_http = http, sc_base_url = trim_end_matches (CHR ''/'') base_url,
                    sc_agent_token = token, sc_agent_id = agent_id\<rparr>))"

definition is_success :: "nat \<Rightarrow> bool" where
  "is_success s \<longleftrightarrow> 200 \<le> s \<and> s < 300"

definition send :: "'x iface \<Rightarrow> server_client \<Rightarrow> http_req
    \<Rightarrow> ('x world, (string, http_resp) result) act" where
  "send I sc r = await (EHttp r) (if_http I (sc_http sc) r)"

text \<open>\<open>send().await.map_err(..)?\<close>, and \<open>json().await.map_err(..)\<close>.\<close>

definition send_or :: "'x iface \<Rightarrow> server_client \<Rightarrow> string \<Rightarrow> http_req
    \<Rightarrow> ('x world, (agent_error, http_resp) result) act" where
  "send_or I sc what r = seqM (send I sc r) (\<lambda>a. liftM (map_err (\<lambda>e. Server_err (what @ e)) a))"

definition json_body :: "'x iface \<Rightarrow> string \<Rightarrow> (json \<Rightarrow> 'a option) \<Rightarrow> string \<Rightarrow> http_resp
    \<Rightarrow> ('x world, (agent_error, 'a) result) act" where
  "json_body I ty d what resp =
     seqM pause (\<lambda>_. liftM (map_err (\<lambda>e. Server_err (what @ e))
       (bind_res (rs_body resp) (from_json_str I ty d))))"

definition http_error :: "'x iface \<Rightarrow> string \<Rightarrow> http_resp \<Rightarrow> agent_error" where
  "http_error I what resp = Server_err (what @ if_status_str I (rs_status resp))"

definition config_request :: "server_client \<Rightarrow> http_req" where
  "config_request sc =
     \<lparr>rq_method = GET, rq_url = sc_base_url sc @ ''/agent/ad/config'',
      rq_headers = [(''X-Agent-Token'', sc_agent_token sc), (''X-Agent-Id'', sc_agent_id sc)],
      rq_body = None\<rparr>"

definition fetch_config :: "'x iface \<Rightarrow> server_client
    \<Rightarrow> ('x world, (agent_error, remote_config) result) act" where
  "fetch_config I sc =
     tryM (send_or I sc ''fetch config: '' (config_request sc)) (\<lambda>resp.
       if \<not> is_success (rs_status resp) then retM (Err (http_error I ''config returned HTTP '' resp))
       else json_body I ''RemoteConfig'' de_remote_config ''config decode: '' resp)"

definition poll_request :: "server_client \<Rightarrow> 32 word \<Rightarrow> http_req" where
  "poll_request sc limit =
     \<lparr>rq_method = GET, rq_url = sc_base_url sc @ ''/agent/ad/operations?limit='' @ dec (unat limit),
      rq_headers = [(''X-Agent-Token'', sc_agent_token sc), (''X-Agent-Id'', sc_agent_id sc)],
      rq_body = None\<rparr>"

definition poll_operations :: "'x iface \<Rightarrow> server_client \<Rightarrow> 32 word
    \<Rightarrow> ('x world, (agent_error, operation list) result) act" where
  "poll_operations I sc limit =
     tryM (send_or I sc ''poll: '' (poll_request sc limit)) (\<lambda>resp.
       if \<not> is_success (rs_status resp) then retM (Err (http_error I ''poll returned HTTP '' resp))
       else json_body I ''OperationsEnvelope'' de_envelope ''poll decode: '' resp)"

definition complete_request :: "server_client \<Rightarrow> string \<Rightarrow> bool \<Rightarrow> string option \<Rightarrow> string option
    \<Rightarrow> http_req" where
  "complete_request sc oid success result_json err =
     \<lparr>rq_method = POST, rq_url = sc_base_url sc @ ''/agent/ad/operations/'' @ oid @ ''/complete'',
      rq_headers = [(''X-Agent-Token'', sc_agent_token sc)],
      rq_body = Some (json_obj [(''success'', JBool success), (''resultJson'', json_opt_str result_json),
                                (''error'', json_opt_str err)])\<rparr>"

definition complete :: "'x iface \<Rightarrow> server_client \<Rightarrow> string \<Rightarrow> bool \<Rightarrow> string option \<Rightarrow> string option
    \<Rightarrow> ('x world, (agent_error, unit) result) act" where
  "complete I sc oid success result_json err =
     tryM (send_or I sc ''complete: '' (complete_request sc oid success result_json err)) (\<lambda>resp.
       if \<not> is_success (rs_status resp) then retM (Err (http_error I ''complete returned HTTP '' resp))
       else retM (Ok ()))"

definition push_request :: "server_client \<Rightarrow> string \<Rightarrow> string \<Rightarrow> json \<Rightarrow> http_req" where
  "push_request sc path secret rec =
     \<lparr>rq_method = POST, rq_url = sc_base_url sc @ path, rq_headers = [(''x-sync-secret'', secret)],
      rq_body = Some rec\<rparr>"

definition push_record :: "'x iface \<Rightarrow> server_client \<Rightarrow> string \<Rightarrow> string \<Rightarrow> json
    \<Rightarrow> ('x world, (agent_error, unit) result) act" where
  "push_record I sc path secret rec =
     tryM (send_or I sc ''push: '' (push_request sc path secret rec)) (\<lambda>resp.
       if \<not> is_success (rs_status resp) then retM (Err (http_error I ''push returned HTTP '' resp))
       else retM (Ok ()))"

definition pull_request :: "server_client \<Rightarrow> string \<Rightarrow> string \<Rightarrow> http_req" where
  "pull_request sc path secret =
     \<lparr>rq_method = GET, rq_url = sc_base_url sc @ path, rq_headers = [(''x-sync-secret'', secret)],
      rq_body = None\<rparr>"

definition pull_writeback :: "'x iface \<Rightarrow> server_client \<Rightarrow> string \<Rightarrow> string
    \<Rightarrow> ('x world, (agent_error, writeback_change list) result) act" where
  "pull_writeback I sc path secret =
     tryM (send_or I sc ''writeback pull: '' (pull_request sc path secret)) (\<lambda>resp.
       if rs_status resp = 404 then retM (Ok [])
       else if \<not> is_success (rs_status resp) then retM (Err (http_error I ''writeback pull HTTP '' resp))
       else json_body I ''Vec<WritebackChange>'' (de_vec de_change) ''writeback decode: '' resp)"

definition heartbeat_request :: "server_client \<Rightarrow> string \<Rightarrow> string \<Rightarrow> string \<Rightarrow> string option \<Rightarrow> http_req" where
  "heartbeat_request sc mode hostname version dir_id =
     \<lparr>rq_method = POST, rq_url = sc_base_url sc @ ''/agent/heartbeat'',
      rq_headers = [(''X-Agent-Token'', sc_agent_token sc)],
      rq_body = Some (json_obj [(''agentId'', JStr (sc_agent_id sc)), (''mode'', JStr mode),
        (''hostname'', JStr hostname), (''version'', JStr version), (''status'', JStr ''ONLINE''),
        (''directoryIntegrationId'', json_opt_str dir_id)])\<rparr>"

definition heartbeat :: "'x iface \<Rightarrow> server_client \<Rightarrow> string \<Rightarrow> string \<Rightarrow> string \<Rightarrow> string option
    \<Rightarrow> ('x world, unit) act" where
  "heartbeat I sc mode hostname version dir_id =
     seqM (send I sc (heartbeat_request sc mode hostname version dir_id)) (\<lambda>_. retM ())"

definition run_request :: "server_client \<Rightarrow> string \<Rightarrow> sync_counters \<Rightarrow> http_req" where
  "run_request sc mode c =
     \<lparr>rq_method = POST, rq_url = sc_base_url sc @ ''/agent/run'',
      rq_headers = [(''X-Agent-Token'', sc_agent_token sc)],
      rq_body = Some (json_obj [(''agentId'', JStr (sc_agent_id sc)), (''mode'', JStr mode),
        (''inspected'', json_u64 (c_inspected c)), (''created'', json_u64 (c_created c)),
        (''updated'', json_u64 (c_updated c)), (''disabled'', json_u64 (c_disabled c)),
        (''failed'', json_u64 (c_failed c))])\<rparr>"

definition report_run :: "'x iface \<Rightarrow> server_client \<Rightarrow> string \<Rightarrow> sync_counters \<Rightarrow> ('x world, unit) act" where
  "report_run I sc mode c = seqM (send I sc (run_request sc mode c)) (\<lambda>_. retM ())"

definition disconnect_request :: "server_client \<Rightarrow> string \<Rightarrow> http_req" where
  "disconnect_request sc reason =
     \<lparr>rq_method = POST, rq_url = sc_base_url sc @ ''/agent/disconnect'',
      rq_headers = [(''X-Agent-Token'', sc_agent_token sc)],
      rq_body = Some (json_obj [(''agentId'', JStr (sc_agent_id sc)), (''reason'', JStr reason)])\<rparr>"

definition disconnect :: "'x iface \<Rightarrow> server_client \<Rightarrow> string \<Rightarrow> ('x world, unit) act" where
  "disconnect I sc reason = seqM (send I sc (disconnect_request sc reason)) (\<lambda>_. retM ())"

section \<open>What the client's methods do to the world\<close>

lemmas server_method_defs = send_def send_or_def json_body_def fetch_config_def poll_operations_def
  complete_def push_record_def pull_writeback_def heartbeat_def report_run_def disconnect_def

context world_frame
begin

lemma keeps_server [frame_rules]:
  "allowed (EHttp (config_request sc)) \<Longrightarrow> keeps R (fetch_config I sc)"
  "allowed (EHttp (poll_request sc limit)) \<Longrightarrow> keeps R (poll_operations I sc limit)"
  "allowed (EHttp (complete_request sc oid ok res err)) \<Longrightarrow> keeps R (complete I sc oid ok res err)"
  "allowed (EHttp (push_request sc path secret rec)) \<Longrightarrow> keeps R (push_record I sc path secret rec)"
  "allowed (EHttp (pull_request sc path secret)) \<Longrightarrow> keeps R (pull_writeback I sc path secret)"
  "allowed (EHttp (heartbeat_request sc m h v d)) \<Longrightarrow> keeps R (heartbeat I sc m h v d)"
  "allowed (EHttp (run_request sc m c)) \<Longrightarrow> keeps R (report_run I sc m c)"
  "allowed (EHttp (disconnect_request sc reason)) \<Longrightarrow> keeps R (disconnect I sc reason)"
  unfolding server_method_defs
  by (auto intro!: keeps_await keeps_pause keeps_seqM keeps_tryM keeps_retM keeps_liftM)

end

text \<open>
  A request of the client: it goes to the client's broker, with the agent's token or, for the
  webhooks of the database mode, with the webhook's secret and nothing else.
\<close>

definition client_request :: "server_client \<Rightarrow> http_req \<Rightarrow> bool" where
  "client_request sc r \<longleftrightarrow> prefix (sc_base_url sc) (rq_url r)
     \<and> (rq_headers r = [(''X-Agent-Token'', sc_agent_token sc)]
        \<or> rq_headers r = [(''X-Agent-Token'', sc_agent_token sc), (''X-Agent-Id'', sc_agent_id sc)]
        \<or> (\<exists>secret. rq_headers r = [(''x-sync-secret'', secret)]))"

lemma client_requests:
  "client_request sc (config_request sc)" "client_request sc (poll_request sc limit)"
  "client_request sc (complete_request sc oid ok res err)"
  "client_request sc (push_request sc path secret rec)" "client_request sc (pull_request sc path secret)"
  "client_request sc (heartbeat_request sc m h v d)" "client_request sc (run_request sc m c)"
  "client_request sc (disconnect_request sc reason)"
  by (simp_all add: client_request_def config_request_def poll_request_def complete_request_def
      push_request_def pull_request_def heartbeat_request_def run_request_def disconnect_request_def)

lemma panic_free_server [panic_rules]:
  "panic_free (fetch_config I sc)" "panic_free (poll_operations I sc limit)"
  "panic_free (complete I sc oid ok res err)" "panic_free (push_record I sc path secret rec)"
  "panic_free (pull_writeback I sc path secret)" "panic_free (heartbeat I sc m h v d)"
  "panic_free (report_run I sc m c)" "panic_free (disconnect I sc reason)"
  unfolding server_method_defs by (auto intro!: panic_rules)

lemma finishes_server [finish_rules]:
  "finishes calm_world any_value (fetch_config I sc)" "finishes calm_world any_value (poll_operations I sc limit)"
  "finishes calm_world any_value (complete I sc oid ok res err)"
  "finishes calm_world any_value (push_record I sc path secret rec)"
  "finishes calm_world any_value (pull_writeback I sc path secret)"
  "finishes calm_world any_value (heartbeat I sc m h v d)"
  "finishes calm_world any_value (report_run I sc m c)" "finishes calm_world any_value (disconnect I sc reason)"
  unfolding server_method_defs by (auto intro!: finish_rules)

end
