(* ===== verification/Db_Connector.thy ===== *)
theory Db_Connector
  imports Server
begin

text \<open>
  \<open>src/connectors/db.rs\<close>: the database connector. The pool is a handle of the \<open>sqlx\<close> driver; a
  query is its text and its bound values, a fetched row what \<open>try_get\<close> gives per column and type.
\<close>

record db_connector =
  dc_pool :: nat
  dc_table :: string
  dc_key_column :: string
  dc_fields :: "(string \<times> string) list"
  dc_driver :: string

definition db_err :: "string \<Rightarrow> (string, 'a) result \<Rightarrow> (agent_error, 'a) result" where
  "db_err what = map_err (\<lambda>e. Db_err (what @ '': '' @ e))"

definition db_connect :: "'x iface \<Rightarrow> string \<Rightarrow> string \<Rightarrow> string \<Rightarrow> string \<Rightarrow> (string \<times> string) list
    \<Rightarrow> ('x world, (agent_error, db_connector) result) act" where
  "db_connect I url driver table key_column fmap =
     tryM (seqM (await (EDbConnect url) (if_db_connect I url)) (\<lambda>a. liftM (db_err ''connect'' a))) (\<lambda>pool.
       retM (Ok \<lparr>dc_pool = pool, dc_table = table, dc_key_column = key_column, dc_fields = fmap,
                 dc_driver = driver\<rparr>))"

section \<open>Reading rows\<close>

text \<open>\<open>Value::from\<close> of an \<open>i64\<close> and of an \<open>f64\<close> (by its bits): only a finite double is a number.\<close>

definition json_i64 :: "u64 \<Rightarrow> json" where
  "json_i64 n = JNum (if 0 \<le> sint n then PosInt n else NegInt n)"

definition f64_finite :: "u64 \<Rightarrow> bool" where
  "f64_finite b \<longleftrightarrow> unat b div 2 ^ 52 mod 2 ^ 11 \<noteq> 2047"

definition json_f64 :: "u64 \<Rightarrow> json" where
  "json_f64 b = (if f64_finite b then JNum (Float b) else JNull)"

definition or_null :: "('a \<Rightarrow> json) \<Rightarrow> 'a option \<Rightarrow> json" where
  "or_null f v = (case v of Some x \<Rightarrow> f x | None \<Rightarrow> JNull)"

definition col_to_json :: "db_row \<Rightarrow> string \<Rightarrow> json" where
  "col_to_json row name =
     (if list_all (\<lambda>c. c \<noteq> name) (row_columns row) then JNull
      else case row_text row name of Some v \<Rightarrow> or_null JStr v
      | None \<Rightarrow> (case row_i64 row name of Some v \<Rightarrow> or_null json_i64 v
      | None \<Rightarrow> (case row_f64 row name of Some v \<Rightarrow> or_null json_f64 v
      | None \<Rightarrow> (case row_bool row name of Some v \<Rightarrow> or_null JBool v
      | None \<Rightarrow> JNull))))"

definition select_sql :: "db_connector \<Rightarrow> string" where
  "select_sql dc = ''SELECT '' @ join '', '' (map fst (dc_fields dc)) @ '' FROM '' @ dc_table dc"

definition row_record :: "db_connector \<Rightarrow> db_row \<Rightarrow> json" where
  "row_record dc row = json_obj (map (\<lambda>(col, canonical). (canonical, col_to_json row col)) (dc_fields dc))"

definition pull_records :: "'x iface \<Rightarrow> db_connector \<Rightarrow> ('x world, (agent_error, json list) result) act" where
  "pull_records I dc =
     tryM (seqM (await (EDbFetch (dc_pool dc) (select_sql dc)) (if_db_fetch I (dc_pool dc) (select_sql dc)))
             (\<lambda>a. liftM (db_err ''pull'' a)))
       (\<lambda>rows. retM (Ok (map (row_record dc) rows)))"

section \<open>Writing changes\<close>

definition placeholder :: "db_connector \<Rightarrow> nat \<Rightarrow> string" where
  "placeholder dc n =
     (if eq_ignore_ascii_case (dc_driver dc) ''postgres'' then ''$'' @ dec n else ''?'')"

text \<open>The configured map reversed, and the changes that it names a column for.\<close>

definition by_canonical :: "db_connector \<Rightarrow> (string \<times> string) list" where
  "by_canonical dc = bt_of_list (map (\<lambda>(db, can). (can, db)) (dc_fields dc))"

definition writable_changes :: "db_connector \<Rightarrow> (string \<times> string) list \<Rightarrow> (string \<times> string) list" where
  "writable_changes dc changes =
     List.map_filter (\<lambda>(can, val). map_option (\<lambda>db. (db, val)) (map_of (by_canonical dc) can)) changes"

fun set_clauses :: "db_connector \<Rightarrow> nat \<Rightarrow> (string \<times> string) list \<Rightarrow> string list \<times> nat" where
  "set_clauses dc idx [] = ([], idx)"
| "set_clauses dc idx ((db, val) # ws) =
     (case set_clauses dc (idx + 1) ws of (cs, idx') \<Rightarrow> ((db @ '' = '' @ placeholder dc idx) # cs, idx'))"

definition writeback_sql :: "db_connector \<Rightarrow> (string \<times> string) list \<Rightarrow> string" where
  "writeback_sql dc ws =
     (case set_clauses dc 1 ws of (cs, idx) \<Rightarrow>
        ''UPDATE '' @ dc_table dc @ '' SET '' @ join '', '' cs @ '' WHERE '' @ dc_key_column dc
          @ '' = '' @ placeholder dc idx)"

definition apply_writeback :: "'x iface \<Rightarrow> db_connector \<Rightarrow> string \<Rightarrow> (string \<times> string) list
    \<Rightarrow> ('x world, (agent_error, u64) result) act" where
  "apply_writeback I dc key changes =
     (let ws = writable_changes dc changes
      in if ws = [] then retM (Ok 0)
         else seqM (await (EDbExecute (dc_pool dc) (writeback_sql dc ws) (map snd ws @ [key]))
                      (if_db_execute I (dc_pool dc) (writeback_sql dc ws) (map snd ws @ [key])))
                (\<lambda>a. liftM (db_err ''writeback'' a)))"

section \<open>What the connector does to the world\<close>

fun is_sql :: "effect \<Rightarrow> bool" where
  "is_sql (EDbConnect _) = True"
| "is_sql (EDbFetch _ _) = True"
| "is_sql (EDbExecute _ _ _) = True"
| "is_sql _ = False"

locale sql_frame = world_frame R allowed for R :: "'x world \<Rightarrow> 'x world \<Rightarrow> bool" and allowed +
  assumes sql_allowed: "is_sql e \<Longrightarrow> allowed e"
begin

lemma keeps_sql [frame_rules]:
  "keeps R (db_connect I url driver table key_column fmap)" "keeps R (pull_records I dc)"
  "keeps R (apply_writeback I dc key changes)"
  unfolding db_connect_def pull_records_def apply_writeback_def Let_def
  by (auto intro!: keeps_tryM keeps_seqM keeps_retM keeps_liftM keeps_await sql_allowed)

end

interpretation disk_sql: sql_frame disk_kept any_effect
  by unfold_locales simp

interpretation sql_only: sql_frame "sends is_sql" is_sql
  by unfold_locales simp

lemma panic_free_sql [panic_rules]:
  "panic_free (db_connect I url driver table key_column fmap)" "panic_free (pull_records I dc)"
  "panic_free (apply_writeback I dc key changes)"
  unfolding db_connect_def pull_records_def apply_writeback_def Let_def
  by (auto intro!: panic_rules)

lemma finishes_sql [finish_rules]:
  "finishes calm_world any_value (db_connect I url driver table key_column fmap)"
  "finishes calm_world any_value (pull_records I dc)"
  "finishes calm_world any_value (apply_writeback I dc key changes)"
  unfolding db_connect_def pull_records_def apply_writeback_def Let_def
  by (auto intro!: finish_rules)

section \<open>The statements\<close>









end
