(* ===== verification/Ldap.thy ===== *)
theory Ldap
  imports Server
begin

text \<open>
  \<open>src/connectors/ldap.rs\<close>: the directory connector. A connection is the handle the LDAP client
  gave out; each request is one await point, followed by the check of its result code. A
  \<open>HashSet\<close> of values is a list here: all but the object classes are singletons.
\<close>

section \<open>Forest contexts\<close>

definition UAC_ENABLED :: string where
  "UAC_ENABLED = ''512''"

definition UAC_DISABLED :: string where
  "UAC_DISABLED = ''514''"

record forest_context =
  fc_forest_id :: string
  fc_root_dn :: string
  fc_global_catalog_host :: "string option"
  fc_servers :: "string list"
  fc_auth_type :: string
  fc_use_gmsa :: bool
  fc_service_account :: "string option"
  fc_service_account_password_encrypted :: "string option"
  fc_use_tls :: bool
  fc_resource_forest :: bool

definition de_forest_context :: "json \<Rightarrow> forest_context option" where
  "de_forest_context j =
     (case de_struct [(''forestId'', False), (''rootDn'', False), (''globalCatalogHost'', False),
                      (''servers'', True), (''authType'', False), (''useGmsa'', False),
                      (''serviceAccount'', False), (''serviceAccountPasswordEncrypted'', False),
                      (''useTls'', False), (''resourceForest'', True)] j of
        Some [a, b, c, d, e, f, g, h, i, k] \<Rightarrow>
          do { fid \<leftarrow> req de_string a; root \<leftarrow> req de_string b; gc \<leftarrow> opt de_string c;
               srv \<leftarrow> dflt [] (de_vec de_string) d; auth \<leftarrow> req de_string e; gmsa \<leftarrow> req de_bool f;
               acc \<leftarrow> opt de_string g; pw \<leftarrow> opt de_string h; tls \<leftarrow> req de_bool i;
               rf \<leftarrow> dflt False de_bool k;
               Some \<lparr>fc_forest_id = fid, fc_root_dn = root, fc_global_catalog_host = gc,
                     fc_servers = srv, fc_auth_type = auth, fc_use_gmsa = gmsa,
                     fc_service_account = acc, fc_service_account_password_encrypted = pw,
                     fc_use_tls = tls, fc_resource_forest = rf\<rparr> }
      | _ \<Rightarrow> None)"

definition hosts :: "forest_context \<Rightarrow> string list" where
  "hosts ctx =
     (if fc_servers ctx \<noteq> [] then fc_servers ctx
      else case fc_global_catalog_host ctx of Some h \<Rightarrow> [h] | None \<Rightarrow> [])"

section \<open>Requests\<close>

record ldap_connector =
  lc_ldap :: nat
  lc_base_dn :: string
  lc_password_writeback :: bool

text \<open>\<open>LdapResult::success\<close>, and the two-level check \<open>await.map_err(..)?.success().map_err(..)?\<close>.\<close>

definition success :: "'x iface \<Rightarrow> ldap_result \<Rightarrow> (string, ldap_result) result" where
  "success I r = (if lr_rc r = 0 then Ok r else Err (if_ldap_rc_msg I r))"

definition ldap_err :: "string \<Rightarrow> (string, 'a) result \<Rightarrow> (agent_error, 'a) result" where
  "ldap_err what = map_err (\<lambda>e. Ldap_err (what @ '': '' @ e))"

definition checked :: "'x iface \<Rightarrow> string \<Rightarrow> string \<Rightarrow> (string, ldap_result) result
    \<Rightarrow> (agent_error, unit) result" where
  "checked I what rejected a =
     bind_res (ldap_err what a) (\<lambda>r. bind_res (ldap_err rejected (success I r)) (\<lambda>_. Ok ()))"

definition found :: "'x iface \<Rightarrow> string \<Rightarrow> string \<Rightarrow> (string, search_entry list \<times> ldap_result) result
    \<Rightarrow> (agent_error, search_entry list) result" where
  "found I what rejected a =
     bind_res (ldap_err what a)
       (\<lambda>(es, r). bind_res (ldap_err rejected (success I r)) (\<lambda>_. Ok es))"

definition ldap_open :: "'x iface \<Rightarrow> bool \<Rightarrow> string \<Rightarrow> ('x world, (agent_error, nat) result) act" where
  "ldap_open I no_tls_verify url =
     seqM (await (ELdapConnect no_tls_verify url) (if_ldap_connect I no_tls_verify url))
       (\<lambda>a. liftM (ldap_err (''connect '' @ url) a))"

definition simple_bind :: "'x iface \<Rightarrow> nat \<Rightarrow> string \<Rightarrow> string \<Rightarrow> string
    \<Rightarrow> ('x world, (agent_error, unit) result) act" where
  "simple_bind I h what dn pw =
     seqM (await (ELdapBind h dn pw) (if_ldap_bind I h dn pw))
       (\<lambda>a. liftM (checked I what (what @ '' rejected'') a))"

definition fqdn_of :: "string \<Rightarrow> string" where
  "fqdn_of url =
     (case rsplit_on (CHR ''/'') url of
        [] \<Rightarrow> url
      | h # _ \<Rightarrow> (case split_on (CHR '':'') h of [] \<Rightarrow> url | n # _ \<Rightarrow> n))"

definition kerberos_bind :: "'x iface \<Rightarrow> nat \<Rightarrow> string \<Rightarrow> ('x world, (agent_error, unit) result) act" where
  "kerberos_bind I h url =
     (if if_kerberos I
      then seqM (await (ELdapGssapi h (fqdn_of url)) (if_ldap_gssapi I h (fqdn_of url)))
             (\<lambda>a. liftM (checked I ''GSSAPI bind'' ''GSSAPI bind rejected'' a))
      else retM (Err (Ldap_err
        ''use_kerberos=true but the agent was built without the `kerberos` feature'')))"

section \<open>Connecting\<close>

definition ldap_connect :: "'x iface \<Rightarrow> string \<Rightarrow> string \<Rightarrow> string \<Rightarrow> string \<Rightarrow> bool \<Rightarrow> bool \<Rightarrow> bool
    \<Rightarrow> ('x world, (agent_error, ldap_connector) result) act" where
  "ldap_connect I url bind_dn bind_password base_dn verify_tls use_kerberos password_writeback =
     tryM (ldap_open I (\<not> verify_tls) url) (\<lambda>h.
       tryM (if use_kerberos then kerberos_bind I h url
             else simple_bind I h ''bind'' bind_dn bind_password) (\<lambda>_.
         retM (Ok \<lparr>lc_ldap = h, lc_base_dn = base_dn, lc_password_writeback = password_writeback\<rparr>)))"

definition forest_kerberos :: "forest_context \<Rightarrow> bool" where
  "forest_kerberos ctx \<longleftrightarrow>
     fc_use_gmsa ctx \<or> eq_ignore_ascii_case (fc_auth_type ctx) ''SASL_KERBEROS''"

definition forest_url :: "forest_context \<Rightarrow> string \<Rightarrow> string" where
  "forest_url ctx host =
     (if fc_use_tls ctx then ''ldaps'' else ''ldap'') @ ''://'' @ host @ '':''
       @ dec (if fc_use_tls ctx then 636 else 389)"

definition forest_base_dn :: "forest_context \<Rightarrow> string option \<Rightarrow> string" where
  "forest_base_dn ctx target = given_or target (fc_root_dn ctx)"

text \<open>The account and password of a simple bind to a forest.\<close>

definition forest_login :: "'x iface \<Rightarrow> forest_context \<Rightarrow> cipher
    \<Rightarrow> (agent_error, string \<times> string) result" where
  "forest_login I ctx c =
     bind_res (ok_or (Ldap_err ''forest SIMPLE bind requires a service account'')
                 (fc_service_account ctx))
       (\<lambda>principal. bind_res
          (case fc_service_account_password_encrypted ctx of
             Some enc \<Rightarrow> decrypt_serialized I c enc
           | None \<Rightarrow> Err (Ldap_err ''forest SIMPLE bind requires a service-account password''))
          (\<lambda>pw. Ok (principal, pw)))"

text \<open>The async block tried for one host: connect, then bind.\<close>

definition try_host :: "'x iface \<Rightarrow> forest_context \<Rightarrow> cipher \<Rightarrow> bool \<Rightarrow> string
    \<Rightarrow> ('x world, (agent_error, nat) result) act" where
  "try_host I ctx c verify_tls url =
     tryM (ldap_open I (\<not> verify_tls) url) (\<lambda>h.
       tryM (if forest_kerberos ctx then kerberos_bind I h url
             else tryM (liftM (forest_login I ctx c)) (\<lambda>(principal, pw).
                    simple_bind I h ''forest bind'' principal pw)) (\<lambda>_.
         retM (Ok h)))"

fun try_hosts :: "'x iface \<Rightarrow> forest_context \<Rightarrow> string \<Rightarrow> cipher \<Rightarrow> bool \<Rightarrow> agent_error option
    \<Rightarrow> string list \<Rightarrow> ('x world, (agent_error, ldap_connector) result) act" where
  "try_hosts I ctx base_dn c verify_tls last_err [] =
     retM (Err (case last_err of
        Some e \<Rightarrow> e
      | None \<Rightarrow> Ldap_err (''forest '' @ CHR 0x27 # fc_root_dn ctx @ CHR 0x27 # '' unreachable'')))"
| "try_hosts I ctx base_dn c verify_tls last_err (host # hs) =
     seqM (try_host I ctx c verify_tls (forest_url ctx host)) (\<lambda>bound. case bound of
         Ok h \<Rightarrow> retM (Ok \<lparr>lc_ldap = h, lc_base_dn = base_dn,
                           lc_password_writeback = fc_use_tls ctx \<or> forest_kerberos ctx\<rparr>)
       | Err e \<Rightarrow> try_hosts I ctx base_dn c verify_tls (Some e) hs)"

definition connect_forest :: "'x iface \<Rightarrow> forest_context \<Rightarrow> string option \<Rightarrow> cipher \<Rightarrow> bool
    \<Rightarrow> ('x world, (agent_error, ldap_connector) result) act" where
  "connect_forest I ctx target c verify_tls =
     (if hosts ctx = []
      then retM (Err (Ldap_err (''forest '' @ CHR 0x27 # fc_root_dn ctx @ CHR 0x27 # '' has no servers'')))
      else try_hosts I ctx (forest_base_dn ctx target) c verify_tls None (hosts ctx))"

section \<open>Accounts\<close>

text \<open>\<open>encode_utf16\<close> of a \<open>str\<close>, which is valid UTF-8 by its type.\<close>

definition encode_utf16 :: "string \<Rightarrow> 16 word list" where
  "encode_utf16 s = (case str_chars s of Some vs \<Rightarrow> utf16_units vs | None \<Rightarrow> [])"

definition encode_password :: "string \<Rightarrow> string" where
  "encode_password pw = concat (map to_le_bytes (encode_utf16 (QUOTE # pw @ [QUOTE])))"

definition modify_entry :: "'x iface \<Rightarrow> ldap_connector \<Rightarrow> string \<Rightarrow> string \<Rightarrow> ldap_mod list
    \<Rightarrow> ('x world, (agent_error, unit) result) act" where
  "modify_entry I lc what dn mods =
     seqM (await (ELdapModify (lc_ldap lc) dn mods) (if_ldap_modify I (lc_ldap lc) dn mods))
       (\<lambda>a. liftM (checked I (what @ '' '' @ dn) (what @ '' rejected '' @ dn) a))"

definition set_password :: "'x iface \<Rightarrow> ldap_connector \<Rightarrow> string \<Rightarrow> string
    \<Rightarrow> ('x world, (agent_error, unit) result) act" where
  "set_password I lc dn password =
     modify_entry I lc ''password writeback'' dn [Replace ''unicodePwd'' [encode_password password]]"

definition create_attrs :: "(string \<times> string) list \<Rightarrow> (string \<times> string list) list" where
  "create_attrs attributes =
     [(''objectClass'', [''top'', ''person'', ''organizationalPerson'', ''user''])]
     @ map (\<lambda>(k, v). (k, [v]))
         (filter (\<lambda>(k, v). \<not> (k = ''distinguishedName'' \<or> v = [])) attributes)
     @ [(''userAccountControl'', [UAC_DISABLED])]"

definition add_entry :: "'x iface \<Rightarrow> ldap_connector \<Rightarrow> string \<Rightarrow> (string \<times> string list) list
    \<Rightarrow> ('x world, (agent_error, unit) result) act" where
  "add_entry I lc dn attrs =
     seqM (await (ELdapAdd (lc_ldap lc) dn attrs) (if_ldap_add I (lc_ldap lc) dn attrs))
       (\<lambda>a. liftM (checked I (''add '' @ dn) (''add rejected '' @ dn) a))"

definition initial_password :: "'x iface \<Rightarrow> ldap_connector \<Rightarrow> string \<Rightarrow> string option
    \<Rightarrow> ('x world, (agent_error, unit) result) act" where
  "initial_password I lc dn plaintext_password =
     (case (lc_password_writeback lc, plaintext_password) of
        (True, Some pw) \<Rightarrow> set_password I lc dn pw
      | _ \<Rightarrow> retM (Ok ()))"

definition create_account :: "'x iface \<Rightarrow> ldap_connector \<Rightarrow> (string \<times> string) list \<Rightarrow> string option
    \<Rightarrow> ('x world, (agent_error, string) result) act" where
  "create_account I lc attributes plaintext_password =
     tryM (liftM (ok_or (Ldap_err ''attributes missing distinguishedName'')
                    (map_of attributes ''distinguishedName''))) (\<lambda>dn.
       tryM (add_entry I lc dn (create_attrs attributes)) (\<lambda>_.
         tryM (initial_password I lc dn plaintext_password) (\<lambda>_.
           retM (Ok dn))))"

definition account_filter :: "string \<Rightarrow> string" where
  "account_filter email = ''(|(userPrincipalName='' @ email @ '')(mail='' @ email @ ''))''"

definition find_dn :: "'x iface \<Rightarrow> ldap_connector \<Rightarrow> string
    \<Rightarrow> ('x world, (agent_error, string) result) act" where
  "find_dn I lc email =
     tryM (seqM (await (ELdapSearch (lc_ldap lc) (lc_base_dn lc) Subtree_scope (account_filter email)
                          [''distinguishedName''])
                   (if_ldap_search I (lc_ldap lc) (lc_base_dn lc) Subtree_scope
                      (account_filter email) [''distinguishedName'']))
             (\<lambda>a. liftM (found I (''search '' @ email) (''search rejected '' @ email) a))) (\<lambda>entries.
       liftM (case entries of
                [] \<Rightarrow> Err (Ldap_err (''no AD account found for '' @ email))
              | e # _ \<Rightarrow> Ok (se_dn e)))"

definition set_uac :: "'x iface \<Rightarrow> ldap_connector \<Rightarrow> string \<Rightarrow> string
    \<Rightarrow> ('x world, (agent_error, string) result) act" where
  "set_uac I lc email uac =
     tryM (find_dn I lc email) (\<lambda>dn.
       tryM (modify_entry I lc ''modify uac'' dn [Replace ''userAccountControl'' [uac]]) (\<lambda>_.
         retM (Ok dn)))"

definition enable_account :: "'x iface \<Rightarrow> ldap_connector \<Rightarrow> string
    \<Rightarrow> ('x world, (agent_error, string) result) act" where
  "enable_account I lc email = set_uac I lc email UAC_ENABLED"

definition disable_account :: "'x iface \<Rightarrow> ldap_connector \<Rightarrow> string
    \<Rightarrow> ('x world, (agent_error, string) result) act" where
  "disable_account I lc email = set_uac I lc email UAC_DISABLED"

definition update_mods :: "(string \<times> string) list \<Rightarrow> ldap_mod list" where
  "update_mods attributes =
     map (\<lambda>(k, v). Replace k [v]) (filter (\<lambda>(k, v). k \<noteq> ''distinguishedName'' \<and> v \<noteq> []) attributes)"

definition update_attributes :: "'x iface \<Rightarrow> ldap_connector \<Rightarrow> string \<Rightarrow> (string \<times> string) list
    \<Rightarrow> ('x world, (agent_error, string) result) act" where
  "update_attributes I lc email attributes =
     tryM (find_dn I lc email) (\<lambda>dn.
       tryM (if update_mods attributes \<noteq> []
             then modify_entry I lc ''modify'' dn (update_mods attributes)
             else retM (Ok ())) (\<lambda>_.
         retM (Ok dn)))"

section \<open>Searching\<close>

definition test_base :: "'x iface \<Rightarrow> ldap_connector \<Rightarrow> ('x world, (agent_error, u64) result) act" where
  "test_base I lc =
     tryM (seqM (await (ELdapSearch (lc_ldap lc) (lc_base_dn lc) Base_scope ''(objectClass=*)''
                          [''distinguishedName''])
                   (if_ldap_search I (lc_ldap lc) (lc_base_dn lc) Base_scope ''(objectClass=*)''
                      [''distinguishedName'']))
             (\<lambda>a. liftM (found I (''search base '' @ lc_base_dn lc) ''base search rejected'' a)))
       (\<lambda>entries. retM (Ok (of_nat (length entries))))"

definition user_attrs :: "string list" where
  "user_attrs = [''mail'', ''userPrincipalName'', ''sAMAccountName'', ''employeeID'',
     ''givenName'', ''sn'', ''displayName'', ''department'', ''title'', ''telephoneNumber'']"

text \<open>The map of one entry: the first value of each attribute, if it is not empty.\<close>

definition first_values :: "search_entry \<Rightarrow> (string \<times> string) list" where
  "first_values e =
     foldl (\<lambda>m (k, vals). case vals of
              v # _ \<Rightarrow> if v \<noteq> [] then bt_insert k v m else m
            | [] \<Rightarrow> m) [] (se_attrs e)"

definition search_users :: "'x iface \<Rightarrow> ldap_connector \<Rightarrow> string \<Rightarrow> string
    \<Rightarrow> ('x world, (agent_error, (string \<times> string) list list) result) act" where
  "search_users I lc base_dn flt =
     tryM (seqM (await (ELdapSearch (lc_ldap lc) base_dn Subtree_scope flt user_attrs)
                   (if_ldap_search I (lc_ldap lc) base_dn Subtree_scope flt user_attrs))
             (\<lambda>a. liftM (found I (''search users '' @ base_dn) ''user search rejected'' a)))
       (\<lambda>entries. retM (Ok (filter (\<lambda>m. m \<noteq> []) (map first_values entries))))"

definition unbind :: "'x iface \<Rightarrow> ldap_connector \<Rightarrow> ('x world, unit) act" where
  "unbind I lc = seqM (await (ELdapUnbind (lc_ldap lc)) (if_ldap_unbind I (lc_ldap lc))) (\<lambda>_. retM ())"

section \<open>What the connector does to the world\<close>

lemmas ldap_method_defs = ldap_open_def simple_bind_def kerberos_bind_def ldap_connect_def try_host_def
  connect_forest_def set_password_def modify_entry_def add_entry_def initial_password_def
  create_account_def find_dn_def set_uac_def enable_account_def
  disable_account_def update_attributes_def test_base_def search_users_def unbind_def

text \<open>Requests to the directory, and the contract of a client that makes no other calls.\<close>

fun is_ldap :: "effect \<Rightarrow> bool" where
  "is_ldap (ELdapConnect _ _) = True"
| "is_ldap (ELdapBind _ _ _) = True"
| "is_ldap (ELdapGssapi _ _) = True"
| "is_ldap (ELdapAdd _ _ _) = True"
| "is_ldap (ELdapModify _ _ _) = True"
| "is_ldap (ELdapSearch _ _ _ _ _) = True"
| "is_ldap (ELdapUnbind _) = True"
| "is_ldap _ = False"

locale ldap_frame = world_frame R allowed for R :: "'x world \<Rightarrow> 'x world \<Rightarrow> bool" and allowed +
  assumes ldap_allowed: "is_ldap e \<Longrightarrow> allowed e"
begin

lemma keeps_ldap_await [frame_rules]: "is_ldap e \<Longrightarrow> keeps R (await e f)"
  by (rule keeps_await) (rule ldap_allowed)

lemma keeps_binds [frame_rules]:
  "keeps R (ldap_open I n url)" "keeps R (simple_bind I h what dn pw)" "keeps R (kerberos_bind I h url)"
  unfolding ldap_method_defs by (auto intro!: frame_rules)

lemma keeps_modify_entry [frame_rules]: "keeps R (modify_entry I lc what dn ms)"
  unfolding modify_entry_def by (auto intro!: frame_rules)

lemma keeps_try_host [frame_rules]: "keeps R (try_host I ctx c v url)"
  unfolding try_host_def by (auto intro!: frame_rules)

lemma keeps_try_hosts [frame_rules]: "keeps R (try_hosts I ctx base c v le hs)"
  by (induction hs arbitrary: le) (auto intro!: frame_rules split: result.split)

lemma keeps_ldap [frame_rules]:
  "keeps R (ldap_connect I url bd bp base v k pwb)" "keeps R (connect_forest I ctx target c v)"
  "keeps R (set_password I lc dn pw)" "keeps R (find_dn I lc email)"
  "keeps R (test_base I lc)" "keeps R (search_users I lc base flt)" "keeps R (unbind I lc)"
  unfolding ldap_connect_def connect_forest_def set_password_def find_dn_def test_base_def
    search_users_def unbind_def Let_def
  by (auto intro!: frame_rules)

lemma keeps_accounts [frame_rules]:
  "keeps R (create_account I lc attrs p)" "keeps R (enable_account I lc email)"
  "keeps R (disable_account I lc email)" "keeps R (update_attributes I lc email attrs)"
  unfolding create_account_def add_entry_def initial_password_def enable_account_def disable_account_def set_uac_def
    update_attributes_def Let_def
  by (auto intro!: frame_rules split: option.split bool.split)

end

interpretation disk_ldap: ldap_frame disk_kept any_effect
  by unfold_locales simp

interpretation ldap_only: ldap_frame "sends is_ldap" is_ldap
  by unfold_locales simp

lemma panic_free_try_host [panic_rules]: "panic_free (try_host I ctx c v url)"
  unfolding try_host_def ldap_open_def simple_bind_def kerberos_bind_def
  by (auto intro!: panic_rules)

lemma panic_free_try_hosts [panic_rules]: "panic_free (try_hosts I ctx base c v le hs)"
  by (induction hs arbitrary: le) (auto intro!: panic_rules split: result.split)

lemma panic_free_ldap [panic_rules]:
  "panic_free (ldap_connect I url bd bp base v k pwb)" "panic_free (connect_forest I ctx target c v)"
  "panic_free (create_account I lc attrs p)" "panic_free (enable_account I lc email)"
  "panic_free (disable_account I lc email)" "panic_free (update_attributes I lc email attrs)"
  "panic_free (test_base I lc)" "panic_free (search_users I lc base flt)" "panic_free (unbind I lc)"
  unfolding ldap_method_defs
  by (auto intro!: panic_rules split: option.split bool.split)

lemma finishes_try_host [finish_rules]: "finishes calm_world any_value (try_host I ctx c v url)"
  unfolding try_host_def ldap_open_def simple_bind_def kerberos_bind_def
  by (auto intro!: finish_rules)

lemma finishes_try_hosts [finish_rules]: "finishes calm_world any_value (try_hosts I ctx base c v le hs)"
  by (induction hs arbitrary: le) (auto intro!: finish_rules split: result.split)

lemma finishes_ldap [finish_rules]:
  "finishes calm_world any_value (ldap_connect I url bd bp base v k pwb)"
  "finishes calm_world any_value (connect_forest I ctx target c v)"
  "finishes calm_world any_value (create_account I lc attrs p)"
  "finishes calm_world any_value (enable_account I lc email)"
  "finishes calm_world any_value (disable_account I lc email)"
  "finishes calm_world any_value (update_attributes I lc email attrs)"
  "finishes calm_world any_value (test_base I lc)" "finishes calm_world any_value (search_users I lc base flt)"
  "finishes calm_world any_value (unbind I lc)"
  unfolding ldap_method_defs
  by (auto intro!: finish_rules split: option.split bool.split)

section \<open>The password's encoding\<close>

lemma decode_encoded_password:
  assumes "str_chars pw = Some vs"
  shows "Option.bind (of_le_bytes (encode_password pw)) utf16_decode = Some (34 # vs @ [34])"
proof -
  have q: "str_chars (QUOTE # pw @ [QUOTE]) = Some (34 # vs @ [34])"
    using str_chars_quoted [OF assms, of QUOTE] by (simp add: byte_def)
  then have "\<forall>v \<in> set (34 # vs @ [34]). scalar v"
    unfolding str_chars_def by (rule utf8_decode_scalar)
  then have "utf16_decode (utf16_units (34 # vs @ [34])) = Some (34 # vs @ [34])"
    by (rule utf16_roundtrip)
  with q show ?thesis
    by (simp only: encode_password_def encode_utf16_def option.case le_bytes_roundtrip bind.bind_lunit)
qed

lemma encode_password_inject:
  assumes "str_chars p = Some us" "str_chars q = Some vs" "us \<noteq> vs"
  shows "encode_password p \<noteq> encode_password q"
  using decode_encoded_password [OF assms(1)] decode_encoded_password [OF assms(2)] assms(3) by auto

text \<open>
  C35. The value written to \<open>unicodePwd\<close> is UTF-16LE of the password in double quotes: a reader
  that splits it into little-endian 16-bit units and decodes these (surrogate pairs included) gets
  exactly the password's characters between two quotes, so no two passwords share a value.
\<close>

theorem password_encoding_roundtrip:
  assumes "str_chars pw = Some vs"
  shows "Option.bind (of_le_bytes (encode_password pw)) utf16_decode = Some (34 # vs @ [34])
    \<and> (\<forall>pw'. utf8_valid pw' \<and> encode_password pw' = encode_password pw \<longrightarrow> str_chars pw' = Some vs)"
proof -
  have "str_chars pw' = Some vs"
    if "utf8_valid pw'" "encode_password pw' = encode_password pw" for pw'
  proof -
    from that(1) obtain us where "str_chars pw' = Some us" by (auto simp: utf8_valid_def)
    with encode_password_inject [OF _ assms] that(2) show ?thesis by auto
  qed
  with decode_encoded_password [OF assms] show ?thesis by blast
qed

text \<open>The password of one character outside the basic plane (U+1F511, a key).\<close>

theorem password_encoding_roundtrip_witness:
  "Option.bind (of_le_bytes (encode_password (map char_of [240, 159, 148, 145 :: nat]))) utf16_decode
     = Some (34 # [128273] @ [34])"
proof -
  have "str_chars (map char_of [240, 159, 148, 145 :: nat]) = Some [128273]"
    by (simp add: str_chars_def byte_def cont_byte_def)
  from password_encoding_roundtrip [OF this] show ?thesis by blast
qed

section \<open>Failover\<close>

text \<open>Hosts that were tried in vain, one after the other, and the error of each.\<close>

inductive tried :: "'x iface \<Rightarrow> forest_context \<Rightarrow> cipher \<Rightarrow> bool \<Rightarrow> string list \<Rightarrow> 'x world
    \<Rightarrow> agent_error list \<Rightarrow> 'x world \<Rightarrow> bool"
  for I :: "'x iface" and ctx c v where
  tried_none: "tried I ctx c v [] w [] w"
| tried_more: "try_host I ctx c v (forest_url ctx h) w = (Done (Err e), w1) \<Longrightarrow>
    tried I ctx c v hs w1 es w2 \<Longrightarrow> tried I ctx c v (h # hs) w (e # es) w2"

inductive_simps tried_Nil: "tried I ctx c v [] w es w2"
inductive_simps tried_Cons: "tried I ctx c v (h # hs) w es w2"

text \<open>The connector made from a bound handle.\<close>

abbreviation forest_conn :: "forest_context \<Rightarrow> string \<Rightarrow> nat \<Rightarrow> ldap_connector" where
  "forest_conn ctx base h \<equiv> \<lparr>lc_ldap = h, lc_base_dn = base,
     lc_password_writeback = fc_use_tls ctx \<or> forest_kerberos ctx\<rparr>"

lemma try_hosts_skip:
  "tried I ctx c v pre w es w1 \<Longrightarrow>
   try_hosts I ctx base c v le (pre @ hs) w
     = try_hosts I ctx base c v (if es = [] then le else Some (last es)) hs w1"
  by (induction arbitrary: le rule: tried.induct) (auto simp: seqM_def)

lemma try_hosts_found:
  "try_host I ctx c v (forest_url ctx h) w = (Done (Ok k), w') \<Longrightarrow>
   try_hosts I ctx base c v le (h # hs) w = (Done (Ok (forest_conn ctx base k)), w')"
  by (simp add: seqM_def retM_def)

lemma try_hosts_Done:
  "try_hosts I ctx base c v le hs w = (Done r, w') \<Longrightarrow>
   \<exists>pre es w1. tried I ctx c v pre w es w1 \<and>
     (pre = hs \<and> w' = w1 \<and> (\<exists>e. r = Err e \<and> (es \<noteq> [] \<longrightarrow> e = last es) \<and> (es = [] \<longrightarrow> (\<forall>x. le = Some x \<longrightarrow> e = x)))
      \<or> (\<exists>h post k. hs = pre @ h # post
           \<and> try_host I ctx c v (forest_url ctx h) w1 = (Done (Ok k), w') \<and> r = Ok (forest_conn ctx base k)))"
proof (induction hs arbitrary: le w)
  case Nil
  then have "tried I ctx c v [] w [] w" "w' = w" "\<exists>e. r = Err e \<and> (\<forall>x. le = Some x \<longrightarrow> e = x)"
    by (auto simp: retM_def intro: tried_none)
  then show ?case by blast
next
  case (Cons h hs)
  from Cons.prems obtain b w1 where t: "try_host I ctx c v (forest_url ctx h) w = (Done b, w1)"
    and rest: "(case b of Ok k \<Rightarrow> retM (Ok (forest_conn ctx base k))
       | Err e \<Rightarrow> try_hosts I ctx base c v (Some e) hs) w1 = (Done r, w')"
    unfolding try_hosts.simps by (rule seqM_DoneE)
  show ?case
  proof (cases b)
    case (Ok k)
    with rest have "r = Ok (forest_conn ctx base k)" "w' = w1" by (simp_all add: retM_def)
    with t Ok tried_none show ?thesis by (metis append_Nil)
  next
    case (Err e)
    with rest have "try_hosts I ctx base c v (Some e) hs w1 = (Done r, w')" by simp
    from Cons.IH [OF this] obtain pre es w2 where p: "tried I ctx c v pre w1 es w2"
      and alt: "pre = hs \<and> w' = w2 \<and> (\<exists>x. r = Err x \<and> (es \<noteq> [] \<longrightarrow> x = last es) \<and> (es = [] \<longrightarrow> x = e))
      \<or> (\<exists>h post k. hs = pre @ h # post
           \<and> try_host I ctx c v (forest_url ctx h) w2 = (Done (Ok k), w') \<and> r = Ok (forest_conn ctx base k))"
      by blast
    have more: "tried I ctx c v (h # pre) w (e # es) w2" using t Err p by (auto intro: tried_more)
    from alt show ?thesis
    proof
      assume "pre = hs \<and> w' = w2 \<and> (\<exists>x. r = Err x \<and> (es \<noteq> [] \<longrightarrow> x = last es) \<and> (es = [] \<longrightarrow> x = e))"
      then have "h # pre = h # hs \<and> w' = w2 \<and> (\<exists>x. r = Err x \<and> x = last (e # es))" by auto
      with more show ?thesis by blast
    next
      assume "\<exists>h post k. hs = pre @ h # post
           \<and> try_host I ctx c v (forest_url ctx h) w2 = (Done (Ok k), w') \<and> r = Ok (forest_conn ctx base k)"
      then obtain g post k where "h # hs = (h # pre) @ g # post"
        "try_host I ctx c v (forest_url ctx g) w2 = (Done (Ok k), w')" "r = Ok (forest_conn ctx base k)"
        by auto
      with more show ?thesis by blast
    qed
  qed
qed

lemma tried_length: "tried I ctx c v hs w es w1 \<Longrightarrow> length es = length hs"
  by (induction rule: tried.induct) auto

text \<open>
  C24. Connecting to a forest tries its servers in order. It succeeds exactly when some server can
  be connected and bound after all servers before it failed, and returns that server's connection,
  with the operation's base DN (or the root DN) and with password writeback only over TLS or
  Kerberos; it fails exactly when there is no server or every server failed, with the last
  server's error.
\<close>

theorem connect_forest_failover:
  "connect_forest I ctx target c v w = (Done r, w') \<longleftrightarrow>
     (case r of
        Ok lc \<Rightarrow> \<exists>pre h post es w1 k. hosts ctx = pre @ h # post \<and> tried I ctx c v pre w es w1
          \<and> try_host I ctx c v (forest_url ctx h) w1 = (Done (Ok k), w')
          \<and> lc = forest_conn ctx (forest_base_dn ctx target) k
      | Err e \<Rightarrow> (hosts ctx = [] \<and> w' = w
            \<and> e = Ldap_err (''forest '' @ CHR 0x27 # fc_root_dn ctx @ CHR 0x27 # '' has no servers''))
          \<or> (\<exists>es. hosts ctx \<noteq> [] \<and> tried I ctx c v (hosts ctx) w es w' \<and> e = last es))"
proof (cases "hosts ctx = []")
  case True
  then show ?thesis
    by (cases r) (auto simp: connect_forest_def retM_def)
next
  case False
  let ?b = "forest_base_dn ctx target"
  have run: "connect_forest I ctx target c v w = try_hosts I ctx ?b c v None (hosts ctx) w"
    using False by (simp only: connect_forest_def if_False)
  have found: "try_hosts I ctx ?b c v None (hosts ctx) w = (Done (Ok (forest_conn ctx ?b k)), w')"
    if "hosts ctx = pre @ h # post" "tried I ctx c v pre w es w1"
      "try_host I ctx c v (forest_url ctx h) w1 = (Done (Ok k), w')" for pre h post es w1 k
    unfolding that(1) try_hosts_skip [OF that(2)] by (rule try_hosts_found [OF that(3)])
  have failed: "try_hosts I ctx ?b c v None (hosts ctx) w = (Done (Err (last es)), w')"
    if "tried I ctx c v (hosts ctx) w es w'" for es
  proof -
    from tried_length [OF that] False have "es \<noteq> []" by auto
    with try_hosts_skip [OF that, of ?b None "[]"] show ?thesis by (simp add: retM_def)
  qed
  show ?thesis
  proof (cases r)
    case (Ok lc)
    have "\<exists>pre h post es w1 k. hosts ctx = pre @ h # post \<and> tried I ctx c v pre w es w1
          \<and> try_host I ctx c v (forest_url ctx h) w1 = (Done (Ok k), w') \<and> lc = forest_conn ctx ?b k"
      if "try_hosts I ctx ?b c v None (hosts ctx) w = (Done (Ok lc), w')"
      using try_hosts_Done [OF that] by blast
    with found show ?thesis unfolding run Ok result.case by blast
  next
    case (Err e)
    have "\<exists>es. tried I ctx c v (hosts ctx) w es w' \<and> e = last es"
      if "try_hosts I ctx ?b c v None (hosts ctx) w = (Done (Err e), w')"
      using try_hosts_Done [OF that] tried_length False by fastforce
    with failed False show ?thesis unfolding run Err result.case by blast
  qed
qed

end
