(* ===== verification/Directory.thy ===== *)
theory Directory
  imports Ldap
begin

text \<open>
  The directory behind a connection, and what the connector's operations do to it.

  \<open>directory_laws I dir\<close> is the documented behaviour of an LDAP server (RFC 4511) as far as the
  agent relies on it, where \<open>dir h x\<close> reads the entries a connection \<open>h\<close> sees: an accepted add
  creates an entry that was not there from attributes given once each, an accepted modify with
  replacements rewrites these attributes of one entry, a refused request changes nothing, and a
  search reads. A server may add attributes of its own to a new entry. \<open>matches\<close> says which entries
  a filter selects under a base and scope; the model never looks into it. The operations on an
  abstract directory (\<open>new_account\<close>, \<open>set_attrs\<close>) are the specification of the connector.
\<close>

type_synonym entry_attrs = "string \<rightharpoonup> string list"
type_synonym directory = "string \<rightharpoonup> entry_attrs"

fun apply_mod :: "entry_attrs \<Rightarrow> ldap_mod \<Rightarrow> entry_attrs" where
  "apply_mod a (Replace k vs) = a(k \<mapsto> vs)"

definition set_attrs :: "ldap_mod list \<Rightarrow> string \<Rightarrow> directory \<Rightarrow> directory" where
  "set_attrs ms dn d = d(dn := map_option (\<lambda>a. foldl apply_mod a ms) (d dn))"

definition add_law :: "'x iface \<Rightarrow> (nat \<Rightarrow> 'x \<Rightarrow> directory) \<Rightarrow> bool" where
  "add_law I dir \<longleftrightarrow>
     (\<forall>h dn atts x r x'. if_ldap_add I h dn atts x = (Ok r, x') \<longrightarrow>
        (if lr_rc r = 0
         then dir h x dn = None \<and> distinct (map fst atts)
              \<and> (\<exists>a. map_of atts \<subseteq>\<^sub>m a \<and> dir h x' = (dir h x)(dn \<mapsto> a))
         else dir h x' = dir h x))"

definition modify_law :: "'x iface \<Rightarrow> (nat \<Rightarrow> 'x \<Rightarrow> directory) \<Rightarrow> bool" where
  "modify_law I dir \<longleftrightarrow>
     (\<forall>h dn ms x r x'. if_ldap_modify I h dn ms x = (Ok r, x') \<longrightarrow>
        (if lr_rc r = 0 then dn \<in> dom (dir h x) \<and> dir h x' = set_attrs ms dn (dir h x)
         else dir h x' = dir h x))"

definition search_law :: "'x iface \<Rightarrow> (nat \<Rightarrow> 'x \<Rightarrow> directory)
    \<Rightarrow> (scope \<Rightarrow> string \<Rightarrow> string \<Rightarrow> string \<Rightarrow> entry_attrs \<Rightarrow> bool) \<Rightarrow> bool" where
  "search_law I dir matches \<longleftrightarrow>
     (\<forall>h base sc flt atts x es r x'. if_ldap_search I h base sc flt atts x = (Ok (es, r), x') \<longrightarrow>
        dir h x' = dir h x
        \<and> (\<forall>e \<in> set es. \<exists>a. dir h x (se_dn e) = Some a \<and> matches sc base flt (se_dn e) a))"

definition directory_laws :: "'x iface \<Rightarrow> (nat \<Rightarrow> 'x \<Rightarrow> directory)
    \<Rightarrow> (scope \<Rightarrow> string \<Rightarrow> string \<Rightarrow> string \<Rightarrow> entry_attrs \<Rightarrow> bool) \<Rightarrow> bool" where
  "directory_laws I dir matches \<longleftrightarrow> add_law I dir \<and> modify_law I dir \<and> search_law I dir matches"

lemma directory_add:
  "directory_laws I dir matches \<Longrightarrow> if_ldap_add I h dn atts x = (Ok r, x') \<Longrightarrow> lr_rc r = 0 \<Longrightarrow>
   dir h x dn = None \<and> distinct (map fst atts) \<and> (\<exists>a. map_of atts \<subseteq>\<^sub>m a \<and> dir h x' = (dir h x)(dn \<mapsto> a))"
  unfolding directory_laws_def add_law_def by presburger

lemma directory_modify:
  "directory_laws I dir matches \<Longrightarrow> if_ldap_modify I h dn ms x = (Ok r, x') \<Longrightarrow> lr_rc r = 0 \<Longrightarrow>
   dn \<in> dom (dir h x) \<and> dir h x' = set_attrs ms dn (dir h x)"
  unfolding directory_laws_def modify_law_def by presburger

lemma directory_refused:
  assumes "directory_laws I dir matches" "lr_rc r \<noteq> 0"
  shows "if_ldap_add I h dn atts x = (Ok r, x') \<Longrightarrow> dir h x' = dir h x"
    and "if_ldap_modify I h dn ms x = (Ok r, x') \<Longrightarrow> dir h x' = dir h x"
  using assms unfolding directory_laws_def add_law_def modify_law_def by presburger+

lemma directory_search:
  "directory_laws I dir matches \<Longrightarrow> if_ldap_search I h base sc flt atts x = (Ok (es, r), x') \<Longrightarrow>
   dir h x' = dir h x \<and> (\<forall>e \<in> set es. \<exists>a. dir h x (se_dn e) = Some a \<and> matches sc base flt (se_dn e) a)"
  unfolding directory_laws_def search_law_def by blast

section \<open>Runs of the connector's requests\<close>

lemma await_DoneE:
  assumes "await e f w = (Done a, w')"
  obtains "f (w_ext w) = (a, w_ext w')" "w_trace w' = w_trace w @ [e]"
  using assms
  by (auto simp: await_def perform_def split: option.splits nat.splits prod.splits)

lemma request_Done:
  assumes "seqM (await e f) (\<lambda>a. liftM (g a)) w = (Done b, w')"
  obtains a where "f (w_ext w) = (a, w_ext w')" "w_trace w' = w_trace w @ [e]" "b = g a"
  using assms by (auto simp: liftM_def retM_def elim!: seqM_DoneE await_DoneE)

text \<open>The same request when no shutdown interrupts it.\<close>

lemma request_calm:
  "w_stop w = None \<Longrightarrow> seqM (await e f) (\<lambda>a. liftM (g a)) w =
     (Done (g (fst (f (w_ext w)))), w\<lparr>w_trace := w_trace w @ [e], w_ext := snd (f (w_ext w))\<rparr>)"
  by (simp add: seqM_def await_calm liftM_def retM_def)

lemma checked_Ok: "checked I what rej a = Ok u \<longleftrightarrow> (\<exists>r. a = Ok r \<and> lr_rc r = 0)"
  by (auto simp: checked_def success_def ldap_err_def bind_res_Ok)

lemma found_Ok: "found I what rej a = Ok es \<longleftrightarrow> (\<exists>r. a = Ok (es, r) \<and> lr_rc r = 0)"
  by (auto simp: found_def success_def ldap_err_def bind_res_Ok)

lemma checked_Done:
  assumes "seqM (await e f) (\<lambda>a. liftM (checked I what rej a)) w = (Done (Ok u), w')"
  obtains r where "f (w_ext w) = (Ok r, w_ext w')" "lr_rc r = 0" "w_trace w' = w_trace w @ [e]"
proof -
  obtain a where "f (w_ext w) = (a, w_ext w')" "w_trace w' = w_trace w @ [e]"
    and "Ok u = checked I what rej a"
    using assms by (rule request_Done)
  then show ?thesis using that by (metis checked_Ok)
qed

lemma found_Done:
  assumes "seqM (await e f) (\<lambda>a. liftM (found I what rej a)) w = (Done (Ok es), w')"
  obtains r where "f (w_ext w) = (Ok (es, r), w_ext w')" "lr_rc r = 0" "w_trace w' = w_trace w @ [e]"
proof -
  obtain a where "f (w_ext w) = (a, w_ext w')" "w_trace w' = w_trace w @ [e]"
    and "Ok es = found I what rej a"
    using assms by (rule request_Done)
  then show ?thesis using that by (metis found_Ok)
qed

lemma modify_entry_ok:
  assumes "modify_entry I lc what dn ms w = (Done (Ok u), w')"
  obtains r where "if_ldap_modify I (lc_ldap lc) dn ms (w_ext w) = (Ok r, w_ext w')" "lr_rc r = 0"
  using assms unfolding modify_entry_def by (rule checked_Done) (rule that)

lemma find_dn_ok:
  assumes "find_dn I lc email w = (Done (Ok dn), w')"
  obtains e es r where
    "if_ldap_search I (lc_ldap lc) (lc_base_dn lc) Subtree_scope (account_filter email)
      [''distinguishedName''] (w_ext w) = (Ok (e # es, r), w_ext w')" "dn = se_dn e"
  using assms unfolding find_dn_def
proof (rule tryM_DoneE)
  fix es w1
  assume s: "seqM (await (ELdapSearch (lc_ldap lc) (lc_base_dn lc) Subtree_scope (account_filter email)
               [''distinguishedName''])
             (if_ldap_search I (lc_ldap lc) (lc_base_dn lc) Subtree_scope (account_filter email)
               [''distinguishedName'']))
       (\<lambda>a. liftM (found I (''search '' @ email) (''search rejected '' @ email) a)) w = (Done (Ok es), w1)"
    and r: "liftM (case es of [] \<Rightarrow> Err (Ldap_err (''no AD account found for '' @ email))
              | e # _ \<Rightarrow> Ok (se_dn e)) w1 = (Done (Ok dn), w')"
  from r obtain e es' where "es = e # es'" "dn = se_dn e" "w1 = w'"
    by (auto simp: liftM_def retM_def split: list.splits)
  with found_Done [OF s] that show ?thesis by metis
qed simp

lemma liftM_Done [simp]: "liftM r w = (Done a, w') \<longleftrightarrow> r = a \<and> w' = w"
  by (auto simp: liftM_def retM_def)

lemma liftM_apply: "liftM r w = (Done r, w)"
  by (simp add: liftM_def retM_def)

lemma retM_Done [simp]: "retM r w = (Done a, w') \<longleftrightarrow> a = r \<and> w' = w"
  by (auto simp: retM_def)

lemma tryM_OkE:
  assumes "tryM m f w = (Done (Ok b), w')"
  obtains a w1 where "m w = (Done (Ok a), w1)" "f a w1 = (Done (Ok b), w')"
  using assms by (auto elim!: tryM_DoneE)

lemma add_entry_ok:
  assumes "add_entry I lc dn attrs w = (Done (Ok u), w')"
  obtains r where "if_ldap_add I (lc_ldap lc) dn attrs (w_ext w) = (Ok r, w_ext w')" "lr_rc r = 0"
  using assms unfolding add_entry_def by (rule checked_Done) (rule that)

lemma create_account_ok:
  assumes "create_account I lc attrs pw w = (Done (Ok dn), w')"
  obtains w1 where "map_of attrs ''distinguishedName'' = Some dn"
    and "add_entry I lc dn (create_attrs attrs) w = (Done (Ok ()), w1)"
    and "initial_password I lc dn pw w1 = (Done (Ok ()), w')"
  using assms that unfolding create_account_def
  by (auto elim!: tryM_OkE simp del: append.simps)

lemma create_attrs_values:
  assumes "distinct (map fst (create_attrs attrs))"
  shows "map_of (create_attrs attrs) ''userAccountControl'' = Some [UAC_DISABLED]"
    and "(k, v) \<in> set attrs \<Longrightarrow> v \<noteq> [] \<Longrightarrow> k \<noteq> ''distinguishedName'' \<Longrightarrow>
           map_of (create_attrs attrs) k = Some [v]"
  by (rule map_of_is_SomeI [OF assms]; force simp: create_attrs_def)+

section \<open>A directory for the witnesses\<close>

text \<open>
  A directory kept as a list of entries, which refuses one password and selects entries by their
  mail attribute.
\<close>

type_synonym sample_dir = "(string \<times> entry_attrs) list"

definition rc :: "nat \<Rightarrow> ldap_result" where
  "rc n = \<lparr>lr_rc = n, lr_text = ''rc='' @ dec n\<rparr>"

definition dir_add :: "string \<Rightarrow> (string \<times> string list) list \<Rightarrow> sample_dir
    \<Rightarrow> (string, ldap_result) result \<times> sample_dir" where
  "dir_add dn atts x =
     (if map_of x dn = None \<and> distinct (map fst atts) then (Ok (rc 0), (dn, map_of atts) # x)
      else (Ok (rc 68), x))"

definition dir_modify :: "string \<Rightarrow> ldap_mod list \<Rightarrow> sample_dir
    \<Rightarrow> (string, ldap_result) result \<times> sample_dir" where
  "dir_modify dn ms x =
     (if map_of x dn = None then (Ok (rc 32), x)
      else if ms = [Replace ''unicodePwd'' [encode_password ''weak'']] then (Ok (rc 53), x)
      else (Ok (rc 0), map (\<lambda>(d, a). (d, if d = dn then foldl apply_mod a ms else a)) x))"

definition mail_matches :: "scope \<Rightarrow> string \<Rightarrow> string \<Rightarrow> string \<Rightarrow> entry_attrs \<Rightarrow> bool" where
  "mail_matches sc base flt dn a =
     (case a ''mail'' of Some [m] \<Rightarrow> flt = account_filter m | _ \<Rightarrow> False)"

definition dir_search :: "scope \<Rightarrow> string \<Rightarrow> string \<Rightarrow> sample_dir
    \<Rightarrow> (string, search_entry list \<times> ldap_result) result \<times> sample_dir" where
  "dir_search sc base flt x =
     (Ok (map (\<lambda>d. \<lparr>se_dn = d, se_attrs = []\<rparr>)
            (filter (\<lambda>d. case map_of x d of Some a \<Rightarrow> mail_matches sc base flt d a | None \<Rightarrow> False)
               (map fst x)), rc 0), x)"

definition sample_dir_iface :: "sample_dir iface" where
  "sample_dir_iface = base_iface
     \<lparr>if_ldap_connect := (\<lambda>t u x. (Ok 1, x)), if_ldap_bind := (\<lambda>h d p x. (Ok (rc 0), x)),
      if_ldap_add := (\<lambda>h. dir_add), if_ldap_modify := (\<lambda>h. dir_modify),
      if_ldap_search := (\<lambda>h base sc flt atts. dir_search sc base flt)\<rparr>"

definition world_on :: "'x \<Rightarrow> 'x world" where
  "world_on x =
     \<lparr>w_files = Map.empty, w_noread = Map.empty, w_nowrite = Map.empty, w_quota = None,
      w_env = Map.empty, w_stop = None, w_late = False, w_trace = [], w_ext = x\<rparr>"

lemma map_of_modified:
  "map_of (map (\<lambda>(d, a). (d, if d = dn then f a else a)) x)
     = (map_of x)(dn := map_option f (map_of x dn))"
  by (induction x) (auto simp: fun_eq_iff)

lemma sample_directory: "directory_laws sample_dir_iface (\<lambda>h. map_of) mail_matches"
  unfolding directory_laws_def
proof (intro conjI)
  show "add_law sample_dir_iface (\<lambda>h. map_of)"
    by (auto simp: add_law_def sample_dir_iface_def dir_add_def rc_def split: if_splits
        intro!: exI conjI map_le_refl)
  show "modify_law sample_dir_iface (\<lambda>h. map_of)"
    by (auto simp: modify_law_def sample_dir_iface_def dir_modify_def rc_def map_of_modified set_attrs_def
        split: if_splits)
  show "search_law sample_dir_iface (\<lambda>h. map_of) mail_matches"
    by (auto simp: search_law_def sample_dir_iface_def dir_search_def split: option.splits)
qed

definition alice :: "(string \<times> string) list" where
  "alice = [(''cn'', ''Alice''), (''department'', []), (''distinguishedName'', ''CN=Alice''),
            (''mail'', ''a@corp'')]"

definition alice_entry :: entry_attrs where
  "alice_entry = map_of (create_attrs alice)"

definition sample_conn :: ldap_connector where
  "sample_conn = \<lparr>lc_ldap = 1, lc_base_dn = ''DC=corp'', lc_password_writeback = True\<rparr>"

lemma alice_distinct: "distinct (map fst (create_attrs alice))"
  by (simp add: create_attrs_def alice_def)

lemma alice_dn: "map_of alice ''distinguishedName'' = Some ''CN=Alice''"
  by (simp add: alice_def)

lemma alice_add:
  "map_of x ''CN=Alice'' = None \<Longrightarrow> dir_add ''CN=Alice'' (create_attrs alice) x
     = (Ok (rc 0), (''CN=Alice'', alice_entry) # x)"
  by (simp only: dir_add_def alice_distinct alice_entry_def simp_thms if_True)

section \<open>Accounts\<close>

lemma create_account_adds:
  assumes "directory_laws I dir matches"
    and "create_account I lc attrs pw w = (Done (Ok dn), w')"
  shows "map_of attrs ''distinguishedName'' = Some dn \<and> dir (lc_ldap lc) (w_ext w) dn = None
    \<and> (\<exists>a. dir (lc_ldap lc) (w_ext w') = (dir (lc_ldap lc) (w_ext w))(dn \<mapsto> a)
        \<and> a ''userAccountControl'' = Some [''514'']
        \<and> (\<forall>(k, v) \<in> set attrs. v \<noteq> [] \<and> k \<notin> {''distinguishedName'', ''unicodePwd''} \<longrightarrow> a k = Some [v])
        \<and> (\<forall>p. pw = Some p \<and> lc_password_writeback lc \<longrightarrow> a ''unicodePwd'' = Some [encode_password p]))"
  (is "_ \<and> _ \<and> (\<exists>a. _ \<and> ?uac a \<and> ?kept a \<and> ?password a)")
proof -
  let ?d = "dir (lc_ldap lc)"
  obtain w1 where dn: "map_of attrs ''distinguishedName'' = Some dn"
    and ae: "add_entry I lc dn (create_attrs attrs) w = (Done (Ok ()), w1)"
    and pw: "initial_password I lc dn pw w1 = (Done (Ok ()), w')"
    using assms(2) by (rule create_account_ok)
  obtain r where add: "if_ldap_add I (lc_ldap lc) dn (create_attrs attrs) (w_ext w) = (Ok r, w_ext w1)"
    "lr_rc r = 0" using ae by (rule add_entry_ok)
  from directory_add [OF assms(1) add] obtain a where new: "?d (w_ext w) dn = None"
    and dist: "distinct (map fst (create_attrs attrs))"
    and a: "map_of (create_attrs attrs) \<subseteq>\<^sub>m a" "?d (w_ext w1) = (?d (w_ext w))(dn \<mapsto> a)"
    by blast
  have get: "a k = Some vs" if "map_of (create_attrs attrs) k = Some vs" for k vs
    using a(1) that by (metis domI map_le_def)
  have uac: "a ''userAccountControl'' = Some [''514'']"
    using get [OF create_attrs_values(1) [OF dist]] by (simp only: UAC_DISABLED_def)
  have other: "a k = Some [v]" if "(k, v) \<in> set attrs" "v \<noteq> []" "k \<noteq> ''distinguishedName''" for k v
    using get [OF create_attrs_values(2) [OF dist that]] .
  have "\<exists>a. ?d (w_ext w') = (?d (w_ext w))(dn \<mapsto> a) \<and> ?uac a \<and> ?kept a \<and> ?password a"
  proof (cases "lc_password_writeback lc \<and> pw \<noteq> None")
    case True
    then obtain p where p: "pw = Some p" by blast
    with True pw have "set_password I lc dn p w1 = (Done (Ok ()), w')"
      by (simp add: initial_password_def)
    then obtain r' where "if_ldap_modify I (lc_ldap lc) dn [Replace ''unicodePwd'' [encode_password p]]
        (w_ext w1) = (Ok r', w_ext w')" "lr_rc r' = 0"
      unfolding set_password_def by (rule modify_entry_ok)
    from directory_modify [OF assms(1) this] a(2)
    have d: "?d (w_ext w') = (?d (w_ext w))(dn \<mapsto> a(''unicodePwd'' \<mapsto> [encode_password p]))"
      by (simp add: set_attrs_def)
    show ?thesis
    proof (intro exI conjI)
      show "(a(''unicodePwd'' \<mapsto> [encode_password p])) ''userAccountControl'' = Some [''514'']"
        using uac by simp
      show "?kept (a(''unicodePwd'' \<mapsto> [encode_password p]))"
        using other by (intro ballI case_prodI2) (metis fun_upd_other insertCI)
      show "?password (a(''unicodePwd'' \<mapsto> [encode_password p]))" by (simp add: p)
    qed (fact d)
  next
    case False
    then have "w' = w1" using pw by (auto simp: initial_password_def split: bool.splits option.splits)
    show ?thesis
    proof (intro exI conjI)
      show "?d (w_ext w') = (?d (w_ext w))(dn \<mapsto> a)" using a(2) \<open>w' = w1\<close> by simp
      show "?kept a" using other by blast
      show "?password a" using False by blast
    qed (fact uac)
  qed
  with dn new show ?thesis by blast
qed

text \<open>
  C14. When creating an account succeeds, the directory holds exactly one entry more: the one the
  attributes name, which was not there before, disabled (514) whatever the broker's attributes
  say, with every other non-empty attribute of the broker, and with the password in the form AD
  asks for when one is given and the connection may write passwords.
\<close>

theorem create_makes_disabled_account:
  assumes "directory_laws I dir matches"
    and "create_account I lc attrs pw w = (Done (Ok dn), w')"
  shows "map_of attrs ''distinguishedName'' = Some dn \<and> dir (lc_ldap lc) (w_ext w) dn = None
    \<and> (\<exists>a. dir (lc_ldap lc) (w_ext w') = (dir (lc_ldap lc) (w_ext w))(dn \<mapsto> a)
        \<and> a ''userAccountControl'' = Some [''514'']
        \<and> (\<forall>(k, v) \<in> set attrs. v \<noteq> [] \<and> k \<notin> {''distinguishedName'', ''unicodePwd''} \<longrightarrow> a k = Some [v])
        \<and> (\<forall>p. pw = Some p \<and> lc_password_writeback lc \<longrightarrow> a ''unicodePwd'' = Some [encode_password p]))"
  using assms by (rule create_account_adds)

lemma alice_created:
  "create_account sample_dir_iface sample_conn alice (Some ''s3cret'') (world_on [])
     = (Done (Ok ''CN=Alice''), snd (create_account sample_dir_iface sample_conn alice (Some ''s3cret'') (world_on [])))"
proof -
  have "encode_password ''s3cret'' \<noteq> encode_password ''weak''"
    by (rule encode_password_inject [OF str_chars_ascii str_chars_ascii]) (simp_all add: byte_def)
  then show ?thesis
  by (simp add: create_account_def add_entry_def alice_dn request_calm world_on_def sample_dir_iface_def
      sample_conn_def alice_add initial_password_def set_password_def modify_entry_def dir_modify_def
      checked_def success_def ldap_err_def rc_def retM_def)
qed

theorem create_makes_disabled_account_witness:
  "\<exists>w'. create_account sample_dir_iface sample_conn alice (Some ''s3cret'') (world_on [])
      = (Done (Ok ''CN=Alice''), w')
    \<and> (\<exists>a. map_of (w_ext w') = [''CN=Alice'' \<mapsto> a] \<and> a ''userAccountControl'' = Some [''514'']
         \<and> a ''cn'' = Some [''Alice''] \<and> a ''unicodePwd'' = Some [encode_password ''s3cret''])"
proof -
  have m: "(''cn'', ''Alice'') \<in> set alice" by (simp add: alice_def)
  from create_makes_disabled_account [OF sample_directory alice_created] m
  show ?thesis
    by (fastforce simp: world_on_def sample_conn_def intro!: alice_created)
qed

lemma set_uac_ok:
  assumes "directory_laws I dir matches" "set_uac I lc email uac w = (Done (Ok dn), w')"
  shows "\<exists>a. dir (lc_ldap lc) (w_ext w) dn = Some a
    \<and> matches Subtree_scope (lc_base_dn lc) (account_filter email) dn a
    \<and> dir (lc_ldap lc) (w_ext w') = (dir (lc_ldap lc) (w_ext w))(dn \<mapsto> a(''userAccountControl'' \<mapsto> [uac]))"
proof -
  obtain w1 where fd: "find_dn I lc email w = (Done (Ok dn), w1)"
    and me: "modify_entry I lc ''modify uac'' dn [Replace ''userAccountControl'' [uac]] w1
      = (Done (Ok ()), w')"
    using assms(2) unfolding set_uac_def by (auto elim!: tryM_OkE)
  obtain e es r where s: "if_ldap_search I (lc_ldap lc) (lc_base_dn lc) Subtree_scope (account_filter email)
      [''distinguishedName''] (w_ext w) = (Ok (e # es, r), w_ext w1)" "dn = se_dn e"
    using fd by (rule find_dn_ok)
  from directory_search [OF assms(1) s(1)] s(2) obtain a where
    a: "dir (lc_ldap lc) (w_ext w) dn = Some a"
       "matches Subtree_scope (lc_base_dn lc) (account_filter email) dn a"
    and same: "dir (lc_ldap lc) (w_ext w1) = dir (lc_ldap lc) (w_ext w)" by auto
  obtain r' where "if_ldap_modify I (lc_ldap lc) dn [Replace ''userAccountControl'' [uac]] (w_ext w1)
      = (Ok r', w_ext w')" "lr_rc r' = 0" using me by (rule modify_entry_ok)
  from directory_modify [OF assms(1) this] same a(1)
  have "dir (lc_ldap lc) (w_ext w') =
      (dir (lc_ldap lc) (w_ext w))(dn \<mapsto> a(''userAccountControl'' \<mapsto> [uac]))"
    by (simp add: set_attrs_def)
  with a show ?thesis by blast
qed

text \<open>
  Enabling or disabling an account, when it succeeds, changes exactly one attribute of one
  entry: \<open>userAccountControl\<close> of an entry below the connection's base DN that the account filter
  selects becomes 512 or 514.
\<close>

theorem account_state_set:
  assumes "directory_laws I dir matches"
    and "(if enable then enable_account I lc email w else disable_account I lc email w)
           = (Done (Ok dn), w')"
  shows "\<exists>a. dir (lc_ldap lc) (w_ext w) dn = Some a
    \<and> matches Subtree_scope (lc_base_dn lc) (account_filter email) dn a
    \<and> dir (lc_ldap lc) (w_ext w') = (dir (lc_ldap lc) (w_ext w))
        (dn \<mapsto> a(''userAccountControl'' \<mapsto> [if enable then ''512'' else ''514'']))"
  using assms(2) set_uac_ok [OF assms(1), of lc email "if enable then ''512'' else ''514''" w dn w']
  by (cases enable) (simp_all only: enable_account_def disable_account_def UAC_ENABLED_def
      UAC_DISABLED_def if_True if_False)

definition alice_dir :: sample_dir where
  "alice_dir = [(''CN=Alice'', alice_entry)]"

lemma alice_mail: "alice_entry ''mail'' = Some [''a@corp'']"
  by (simp add: alice_entry_def create_attrs_def alice_def)

definition alice_world :: "sample_dir world" where
  "alice_world = snd (find_dn sample_dir_iface sample_conn ''a@corp'' (world_on alice_dir))"

lemma alice_found:
  "find_dn sample_dir_iface sample_conn ''a@corp'' (world_on alice_dir) = (Done (Ok ''CN=Alice''), alice_world)
   \<and> w_ext alice_world = alice_dir \<and> w_stop alice_world = None"
  unfolding alice_world_def
  by (simp add: find_dn_def request_calm world_on_def sample_dir_iface_def dir_search_def alice_dir_def
      mail_matches_def alice_mail found_def success_def ldap_err_def rc_def liftM_apply sample_conn_def)

lemma alice_find_then:
  "tryM (find_dn sample_dir_iface sample_conn ''a@corp'') f (world_on alice_dir) = f ''CN=Alice'' alice_world"
  using alice_found by (simp add: tryM_def seqM_def)

lemma alice_modify:
  "ms \<noteq> [Replace ''unicodePwd'' [encode_password ''weak'']] \<Longrightarrow>
   dir_modify ''CN=Alice'' ms alice_dir = (Ok (rc 0), [(''CN=Alice'', foldl apply_mod alice_entry ms)])"
  by (simp add: dir_modify_def alice_dir_def)

lemma alice_modify_entry:
  assumes "ms \<noteq> [Replace ''unicodePwd'' [encode_password ''weak'']]"
    "w_ext w = alice_dir" "w_stop w = None"
  shows "\<exists>w'. modify_entry sample_dir_iface sample_conn what ''CN=Alice'' ms w = (Done (Ok ()), w')"
  using assms(2,3) alice_modify [OF assms(1)]
  by (simp add: modify_entry_def request_calm sample_dir_iface_def checked_def success_def ldap_err_def
      rc_def)

theorem account_state_set_witness:
  "\<exists>w'. enable_account sample_dir_iface sample_conn ''a@corp'' (world_on alice_dir)
      = (Done (Ok ''CN=Alice''), w')
    \<and> map_of (w_ext w') ''CN=Alice'' = Some (alice_entry(''userAccountControl'' \<mapsto> [''512'']))
    \<and> alice_entry ''userAccountControl'' = Some [''514'']"
proof -
  obtain w' where "modify_entry sample_dir_iface sample_conn ''modify uac'' ''CN=Alice''
      [Replace ''userAccountControl'' [UAC_ENABLED]]
      alice_world = (Done (Ok ()), w')"
    using alice_modify_entry alice_found by fastforce
  then have run: "enable_account sample_dir_iface sample_conn ''a@corp'' (world_on alice_dir)
      = (Done (Ok ''CN=Alice''), w')"
    by (simp only: enable_account_def set_uac_def alice_find_then)
      (simp add: tryM_simps(1) retM_def)
  then have sel: "(if True then enable_account sample_dir_iface sample_conn ''a@corp'' (world_on alice_dir)
      else disable_account sample_dir_iface sample_conn ''a@corp'' (world_on alice_dir))
      = (Done (Ok ''CN=Alice''), w')" by simp
  have "alice_entry ''userAccountControl'' = Some [''514'']"
    by (simp add: alice_entry_def create_attrs_def alice_def UAC_DISABLED_def)
  with account_state_set [OF sample_directory sel] run show ?thesis
    by (auto simp: world_on_def alice_dir_def)
qed

lemma apply_replaces:
  "distinct (map fst kvs) \<Longrightarrow>
   foldl apply_mod a (map (\<lambda>(k, v). Replace k [v]) kvs) k =
     (case map_of kvs k of Some v \<Rightarrow> Some [v] | None \<Rightarrow> a k)"
proof (induction kvs arbitrary: a)
  case (Cons kv kvs)
  then have "map_of kvs (fst kv) = None" by (simp add: map_of_eq_None_iff)
  with Cons show ?case by (auto split: prod.splits option.splits)
qed simp

lemma apply_update_mods:
  assumes "bt_ok attrs"
  shows "foldl apply_mod a (update_mods attrs) k =
     (case map_of attrs k of
        Some v \<Rightarrow> if k = ''distinguishedName'' \<or> v = [] then a k else Some [v]
      | None \<Rightarrow> a k)"
proof -
  let ?ok = "\<lambda>(k, v). k \<noteq> ''distinguishedName'' \<and> v \<noteq> []"
  note d = bt_ok_distinct [OF assms] and d' = bt_ok_distinct [OF bt_ok_filter [OF assms], of ?ok]
  have "map_of (filter ?ok attrs) k = (case map_of attrs k of
      Some v \<Rightarrow> if ?ok (k, v) then Some v else None | None \<Rightarrow> None)"
    using d by (rule map_of_filter_pair)
  then show ?thesis
    unfolding update_mods_def apply_replaces [OF d'] by (cases "map_of attrs k") simp_all
qed

lemma update_attributes_ok:
  assumes "directory_laws I dir matches" "bt_ok attrs"
    and "update_attributes I lc email attrs w = (Done (Ok dn), w')"
  shows "\<exists>a a'. dir (lc_ldap lc) (w_ext w) dn = Some a
    \<and> matches Subtree_scope (lc_base_dn lc) (account_filter email) dn a
    \<and> dir (lc_ldap lc) (w_ext w') = (dir (lc_ldap lc) (w_ext w))(dn \<mapsto> a')
    \<and> (\<forall>k. a' k = (case map_of attrs k of
                     Some v \<Rightarrow> if k = ''distinguishedName'' \<or> v = [] then a k else Some [v]
                   | None \<Rightarrow> a k))"
proof -
  obtain w1 where fd: "find_dn I lc email w = (Done (Ok dn), w1)"
    and me: "(if update_mods attrs \<noteq> [] then modify_entry I lc ''modify'' dn (update_mods attrs)
       else retM (Ok ())) w1 = (Done (Ok ()), w')"
    using assms(3) unfolding update_attributes_def by (auto elim!: tryM_OkE)
  obtain e es r where s: "if_ldap_search I (lc_ldap lc) (lc_base_dn lc) Subtree_scope (account_filter email)
      [''distinguishedName''] (w_ext w) = (Ok (e # es, r), w_ext w1)" "dn = se_dn e"
    using fd by (rule find_dn_ok)
  from directory_search [OF assms(1) s(1)] s(2) obtain a where
    a: "dir (lc_ldap lc) (w_ext w) dn = Some a"
       "matches Subtree_scope (lc_base_dn lc) (account_filter email) dn a"
    and same: "dir (lc_ldap lc) (w_ext w1) = dir (lc_ldap lc) (w_ext w)" by auto
  let ?a = "foldl apply_mod a (update_mods attrs)"
  have new: "dir (lc_ldap lc) (w_ext w') = (dir (lc_ldap lc) (w_ext w))(dn \<mapsto> ?a)"
  proof (cases "update_mods attrs = []")
    case True
    with me same a(1) show ?thesis by (auto simp: fun_upd_idem)
  next
    case False
    with me obtain r' where "if_ldap_modify I (lc_ldap lc) dn (update_mods attrs) (w_ext w1)
      = (Ok r', w_ext w')" "lr_rc r' = 0" by (auto elim!: modify_entry_ok)
    from directory_modify [OF assms(1) this] same a(1) show ?thesis by (simp add: set_attrs_def)
  qed
  have "?a k = (case map_of attrs k of
                     Some v \<Rightarrow> if k = ''distinguishedName'' \<or> v = [] then a k else Some [v]
                   | None \<Rightarrow> a k)" for k
    by (rule apply_update_mods [OF assms(2)])
  with a new show ?thesis by blast
qed

text \<open>
  Updating attributes, when it succeeds, leaves every other entry alone and sets the non-empty
  attributes of the request (other than the name) in one entry the account filter selects; an
  attribute that is not named, or named with an empty value, keeps its value.
\<close>

theorem update_replaces_given_attributes:
  assumes "directory_laws I dir matches" "bt_ok attrs"
    and "update_attributes I lc email attrs w = (Done (Ok dn), w')"
  shows "\<exists>a a'. dir (lc_ldap lc) (w_ext w) dn = Some a
    \<and> matches Subtree_scope (lc_base_dn lc) (account_filter email) dn a
    \<and> dir (lc_ldap lc) (w_ext w') = (dir (lc_ldap lc) (w_ext w))(dn \<mapsto> a')
    \<and> (\<forall>k. a' k = (case map_of attrs k of
                     Some v \<Rightarrow> if k = ''distinguishedName'' \<or> v = [] then a k else Some [v]
                   | None \<Rightarrow> a k))"
  using assms by (rule update_attributes_ok)

definition alice_changes :: "(string \<times> string) list" where
  "alice_changes = [(''cn'', []), (''department'', ''R&D''), (''title'', ''Dr'')]"

theorem update_replaces_given_attributes_witness:
  "\<exists>w' a. update_attributes sample_dir_iface sample_conn ''a@corp'' alice_changes (world_on alice_dir)
      = (Done (Ok ''CN=Alice''), w')
    \<and> map_of (w_ext w') ''CN=Alice'' = Some a \<and> a ''department'' = Some [''R&D'']
    \<and> a ''cn'' = alice_entry ''cn''"
proof -
  have ne: "update_mods alice_changes \<noteq> []" by (simp add: update_mods_def alice_changes_def)
  have "update_mods alice_changes \<noteq> [Replace ''unicodePwd'' [encode_password ''weak'']]"
    by (simp add: update_mods_def alice_changes_def)
  then obtain w' where "modify_entry sample_dir_iface sample_conn ''modify'' ''CN=Alice''
      (update_mods alice_changes)
      alice_world = (Done (Ok ()), w')"
    using alice_modify_entry alice_found by blast
  then have run: "update_attributes sample_dir_iface sample_conn ''a@corp'' alice_changes
      (world_on alice_dir) = (Done (Ok ''CN=Alice''), w')"
    by (simp only: update_attributes_def alice_find_then ne not_False_eq_True if_True)
      (simp add: tryM_simps(1) retM_def)
  have "bt_ok alice_changes" by code_simp
  from update_replaces_given_attributes [OF sample_directory this run] obtain a'
    where new: "map_of (w_ext w') ''CN=Alice'' = Some a'"
    and vals: "\<forall>k. a' k = (case map_of alice_changes k of
       Some v \<Rightarrow> if k = ''distinguishedName'' \<or> v = [] then alice_entry k else Some [v]
     | None \<Rightarrow> alice_entry k)"
    by (auto simp: world_on_def alice_dir_def)
  have "a' ''department'' = Some [''R&D'']" "a' ''cn'' = alice_entry ''cn''"
    using vals by (simp_all add: alice_changes_def)
  with run new show ?thesis by blast
qed

section \<open>A refused password\<close>

text \<open>
  C36. When the directory accepts the new account but refuses its password, the creation is
  reported as failed although the (disabled) account exists; repeating the request then never
  succeeds as long as the account is there.
\<close>

theorem refused_password_leaves_account:
  assumes "directory_laws I dir matches" "w_stop w = None" "lc_password_writeback lc"
    and "map_of attrs ''distinguishedName'' = Some dn"
    and "if_ldap_add I (lc_ldap lc) dn (create_attrs attrs) (w_ext w) = (Ok r, x1)" "lr_rc r = 0"
    and "if_ldap_modify I (lc_ldap lc) dn [Replace ''unicodePwd'' [encode_password p]] x1 = (Ok r2, x2)"
    and "lr_rc r2 \<noteq> 0"
  shows "\<exists>e w'. create_account I lc attrs (Some p) w = (Done (Err e), w')
    \<and> dir (lc_ldap lc) (w_ext w') dn \<noteq> None
    \<and> (\<forall>pw d w''. create_account I lc attrs pw w' \<noteq> (Done (Ok d), w''))"
proof -
  let ?d = "dir (lc_ldap lc)"
  let ?w1 = "w\<lparr>w_trace := w_trace w @ [ELdapAdd (lc_ldap lc) dn (create_attrs attrs)], w_ext := x1\<rparr>"
  let ?ms = "[Replace ''unicodePwd'' [encode_password p]]"
  let ?w2 = "?w1\<lparr>w_trace := w_trace ?w1 @ [ELdapModify (lc_ldap lc) dn ?ms], w_ext := x2\<rparr>"
  have "add_entry I lc dn (create_attrs attrs) w = (Done (Ok ()), ?w1)"
    unfolding add_entry_def using assms(2,5,6) by (simp add: request_calm checked_def success_def ldap_err_def)
  moreover have "\<exists>e. initial_password I lc dn (Some p) ?w1 = (Done (Err e), ?w2)"
    unfolding initial_password_def set_password_def modify_entry_def
    using assms(2,3,7,8) by (simp add: request_calm checked_def success_def ldap_err_def)
  ultimately have "\<exists>e. create_account I lc attrs (Some p) w = (Done (Err e), ?w2)"
    unfolding create_account_def assms(4) by auto
  moreover from directory_add [OF assms(1,5,6)] directory_refused(2) [OF assms(1,8,7)]
  have there: "?d (w_ext ?w2) dn \<noteq> None" by auto
  moreover have "create_account I lc attrs pw ?w2 \<noteq> (Done (Ok d), w'')" for pw d w''
  proof
    assume "create_account I lc attrs pw ?w2 = (Done (Ok d), w'')"
    then obtain w1 where "map_of attrs ''distinguishedName'' = Some d"
      and "add_entry I lc d (create_attrs attrs) ?w2 = (Done (Ok ()), w1)"
      by (rule create_account_ok)
    with assms(4) obtain r where
      "if_ldap_add I (lc_ldap lc) dn (create_attrs attrs) (w_ext ?w2) = (Ok r, w_ext w1)" "lr_rc r = 0"
      using add_entry_ok by (metis option.inject)
    from directory_add [OF assms(1) this] there show False by blast
  qed
  ultimately show ?thesis by blast
qed

theorem refused_password_leaves_account_witness:
  "\<exists>e w'. create_account sample_dir_iface sample_conn alice (Some ''weak'') (world_on []) = (Done (Err e), w')
    \<and> map_of (w_ext w') ''CN=Alice'' \<noteq> None
    \<and> (\<forall>pw d w''. create_account sample_dir_iface sample_conn alice pw w' \<noteq> (Done (Ok d), w''))"
proof -
  have "w_stop (world_on ([] :: sample_dir)) = None" "lc_password_writeback sample_conn"
    by (simp_all add: world_on_def sample_conn_def)
  moreover have "if_ldap_add sample_dir_iface (lc_ldap sample_conn) ''CN=Alice'' (create_attrs alice)
      (w_ext (world_on [])) = (Ok (rc 0), [(''CN=Alice'', alice_entry)])"
    by (simp add: sample_dir_iface_def world_on_def alice_add)
  moreover have "if_ldap_modify sample_dir_iface (lc_ldap sample_conn) ''CN=Alice''
      [Replace ''unicodePwd'' [encode_password ''weak'']] [(''CN=Alice'', alice_entry)]
      = (Ok (rc 53), [(''CN=Alice'', alice_entry)])"
    by (simp add: sample_dir_iface_def dir_modify_def)
  moreover have "lr_rc (rc 0) = 0" "lr_rc (rc 53) \<noteq> 0" by (simp_all add: rc_def)
  ultimately show ?thesis
    using refused_password_leaves_account [OF sample_directory _ _ alice_dn] by blast
qed

end
