(* ===== verification/Audit_Chain.thy ===== *)
theory Audit_Chain
  imports Audit_Log Sample
begin

text \<open>
  The specification of the event log and its theorems: what \<open>append\<close>, \<open>open\<close> and \<open>verify\<close>
  promise of the list of records on disk, what the hash chain does and does not give, and what an
  incomplete write leaves behind.
\<close>

section \<open>Chains in general\<close>

text \<open>
  A chain of records from a starting head: each record is linked to the head before it and gives
  the next head. \<open>walk\<close> is the provider's own recursion over a list of records.
\<close>

locale hash_chain =
  fixes link :: "'h \<Rightarrow> u64 \<Rightarrow> 'r \<Rightarrow> bool"
    and head :: "'r \<Rightarrow> 'h"
    and walk :: "'h \<Rightarrow> u64 \<Rightarrow> 'r list \<Rightarrow> bool"
  assumes walk_Nil: "walk p n []"
    and walk_Cons: "walk p n (r # rs) \<longleftrightarrow> link p n r \<and> walk (head r) (n + 1) rs"
begin

lemma walk_append:
  "walk p n (xs @ ys) \<longleftrightarrow>
     walk p n xs \<and> walk (foldl (\<lambda>_ r. head r) p xs) (n + of_nat (length xs)) ys"
  by (induction xs arbitrary: p n) (auto simp: walk_Nil walk_Cons algebra_simps)

lemma walk_snoc:
  "walk p n (xs @ [r]) \<longleftrightarrow>
     walk p n xs \<and> link (foldl (\<lambda>_ r. head r) p xs) (n + of_nat (length xs)) r"
  by (simp add: walk_append walk_Cons walk_Nil)

lemma walk_prefix: "walk p n (xs @ ys) \<Longrightarrow> walk p n xs"
  by (simp add: walk_append)

end

text \<open>The digest's inputs along a chain.\<close>

fun chain_inputs :: "('h \<Rightarrow> 'r \<Rightarrow> 'i) \<Rightarrow> ('r \<Rightarrow> 'h) \<Rightarrow> 'h \<Rightarrow> 'r list \<Rightarrow> 'i list" where
  "chain_inputs f head p [] = []"
| "chain_inputs f head p (r # rs) = f p r # chain_inputs f head (head r) rs"

lemma chain_inputs_snoc:
  "chain_inputs f head p (xs @ [r]) = chain_inputs f head p xs @ [f (foldl (\<lambda>_ r. head r) p xs) r]"
  by (induction xs arbitrary: p) auto

text \<open>
  A chain whose heads are digests of the previous head and the record's content: two chains of the
  same length that end in the same head have the same contents throughout, unless two different
  inputs met in them have the same digest.
\<close>

locale sealed_chain = hash_chain link head walk
  for link :: "'h \<Rightarrow> u64 \<Rightarrow> 'r \<Rightarrow> bool" and head :: "'r \<Rightarrow> 'h"
    and walk :: "'h \<Rightarrow> u64 \<Rightarrow> 'r list \<Rightarrow> bool" +
  fixes input :: "'h \<Rightarrow> 'r \<Rightarrow> 'i" and dig :: "'i \<Rightarrow> 'h" and content :: "'r \<Rightarrow> 'c"
  assumes link_head: "link p n r \<Longrightarrow> head r = dig (input p r)"
    and input_inj: "link p n r \<Longrightarrow> link q m s \<Longrightarrow> input p r = input q s \<Longrightarrow>
                      p = q \<and> content r = content s"
begin

lemma same_end_same_content:
  assumes "walk p n xs" "walk p m ys" "length xs = length ys"
    and "foldl (\<lambda>_ r. head r) p xs = foldl (\<lambda>_ r. head r) p ys"
    and "inj_on dig (set (chain_inputs input head p xs) \<union> set (chain_inputs input head p ys))"
  shows "map content xs = map content ys"
  using assms
proof (induction xs arbitrary: ys rule: rev_induct)
  case (snoc x xs)
  from snoc.prems(3) obtain y ys' where ys: "ys = ys' @ [y]" "length xs = length ys'"
    by (cases ys rule: rev_cases) auto
  let ?p = "foldl (\<lambda>_ r. head r) p xs" and ?q = "foldl (\<lambda>_ r. head r) p ys'"
  from snoc.prems(1) have wx: "walk p n xs" and lx: "link ?p (n + of_nat (length xs)) x"
    by (simp_all add: walk_snoc)
  from snoc.prems(2) ys(1) have wy: "walk p m ys'" and ly: "link ?q (m + of_nat (length ys')) y"
    by (simp_all add: walk_snoc)
  have "dig (input ?p x) = dig (input ?q y)"
    using snoc.prems(4) ys(1) link_head [OF lx] link_head [OF ly] by simp
  then have "input ?p x = input ?q y"
    by (rule inj_onD [OF snoc.prems(5)]) (simp_all add: ys(1) chain_inputs_snoc)
  with input_inj [OF lx ly] have "?p = ?q" "content x = content y" by auto
  moreover have "inj_on dig (set (chain_inputs input head p xs) \<union> set (chain_inputs input head p ys'))"
    by (rule inj_on_subset [OF snoc.prems(5)]) (auto simp: ys(1) chain_inputs_snoc)
  ultimately show ?case using snoc.IH [OF wx wy ys(2)] ys(1) by simp
qed simp

end

section \<open>Chains of audit records\<close>

definition link_ok :: "'x iface \<Rightarrow> string \<Rightarrow> u64 \<Rightarrow> audit_record \<Rightarrow> bool" where
  "link_ok I p n r \<longleftrightarrow> ar_seq r = n \<and> ar_prev_hash r = p
     \<and> ar_hash r = compute_hash I (ar_seq r) (ar_ts r) (ar_event r) (ar_detail r) p"

fun chain :: "'x iface \<Rightarrow> string \<Rightarrow> u64 \<Rightarrow> audit_record list \<Rightarrow> bool" where
  "chain I p n [] = True"
| "chain I p n (r # rs) = (link_ok I p n r \<and> chain I (ar_hash r) (n + 1) rs)"

abbreviation end_hash :: "audit_record list \<Rightarrow> string" where
  "end_hash rs \<equiv> foldl (\<lambda>_ r. ar_hash r) GENESIS rs"

interpretation audit: hash_chain "link_ok I" ar_hash "chain I" for I
  by unfold_locales auto

text \<open>
  The same chain with heads that hold no line break, which is what makes the hashed text
  unambiguous. It is the chain itself when the digest prints as hexadecimal.
\<close>

definition clean_link :: "'x iface \<Rightarrow> string \<Rightarrow> u64 \<Rightarrow> audit_record \<Rightarrow> bool" where
  "clean_link I p n r \<longleftrightarrow> link_ok I p n r \<and> NL \<notin> set p"

fun clean_chain :: "'x iface \<Rightarrow> string \<Rightarrow> u64 \<Rightarrow> audit_record list \<Rightarrow> bool" where
  "clean_chain I p n [] = True"
| "clean_chain I p n (r # rs) = (clean_link I p n r \<and> clean_chain I (ar_hash r) (n + 1) rs)"

definition sealed_text :: "'x iface \<Rightarrow> audit_record \<Rightarrow> string" where
  "sealed_text I r = ar_ts r @ [NL] @ ar_event r @ [NL] @ if_json_str I (ar_detail r)"

definition record_input :: "'x iface \<Rightarrow> string \<Rightarrow> audit_record \<Rightarrow> string" where
  "record_input I p r = hash_input I (ar_seq r) (ar_ts r) (ar_event r) (ar_detail r) p"

definition digest :: "'x iface \<Rightarrow> string \<Rightarrow> string" where
  "digest I s = if_hex I (if_sha256 I s)"

text \<open>All of a record, with the hashed fields as the text that is hashed.\<close>

definition content :: "'x iface \<Rightarrow> audit_record \<Rightarrow> u64 \<times> string \<times> string \<times> string" where
  "content I r = (ar_seq r, sealed_text I r, ar_prev_hash r, ar_hash r)"

lemma link_ok_hash: "link_ok I p n r \<Longrightarrow> ar_hash r = digest I (record_input I p r)"
  unfolding link_ok_def digest_def record_input_def compute_hash_def by blast

lemma record_input_sealed:
  "record_input I p r = dec (unat (ar_seq r)) @ NL # sealed_text I r @ NL # p"
  by (simp add: record_input_def hash_input_def sealed_text_def)

interpretation sealed: sealed_chain "clean_link I" ar_hash "clean_chain I" "record_input I"
    "digest I" "content I" for I
proof unfold_locales
  fix p n r q m s
  assume l: "clean_link I p n r" "clean_link I q m s"
    and i: "record_input I p r = record_input I q s"
  from l i have "p = q" "ar_seq r = ar_seq s" "sealed_text I r = sealed_text I s"
    by (auto simp: record_input_sealed clean_link_def sep_first sep_last
        simp flip: word_unat_eq_iff)
  moreover from l i have "ar_hash r = ar_hash s"
    by (auto simp: clean_link_def dest!: link_ok_hash)
  moreover from l have "ar_prev_hash r = p" "ar_prev_hash s = q"
    by (simp_all add: clean_link_def link_ok_def)
  ultimately show "p = q \<and> content I r = content I s" by (simp add: content_def)
qed (auto simp: clean_link_def dest: link_ok_hash)

lemma chain_clean: "hash_laws I \<Longrightarrow> NL \<notin> set p \<Longrightarrow> chain I p n rs \<Longrightarrow> clean_chain I p n rs"
proof (induction rs arbitrary: p n)
  case (Cons r rs)
  then have "NL \<notin> set (ar_hash r)" by (auto simp: link_ok_def compute_hash_def hash_laws_def)
  with Cons show ?case by (auto simp: clean_link_def)
qed simp

lemma GENESIS_no_NL: "NL \<notin> set GENESIS"
  by (simp add: GENESIS_def)

lemma chain_last_seq: "chain I p n (xs @ [y]) \<Longrightarrow> ar_seq y = n + of_nat (length xs)"
  by (simp add: audit.walk_snoc link_ok_def)

section \<open>The file\<close>

definition record_line :: "'x iface \<Rightarrow> audit_record \<Rightarrow> string" where
  "record_line I r = if_json_str I (record_tree r)"

text \<open>All records of a file's lines, or the first error of reading them.\<close>

fun parse_log :: "'x iface \<Rightarrow> string list \<Rightarrow> (agent_error, audit_record list) result" where
  "parse_log I [] = Ok []"
| "parse_log I (l # ls) =
     bind_res (read_line l) (\<lambda>l.
       if trim l = [] then parse_log I ls
       else bind_res (parse_record I l) (\<lambda>r. bind_res (parse_log I ls) (\<lambda>rs. Ok (r # rs))))"

abbreviation plain_record :: "audit_record \<Rightarrow> bool" where
  "plain_record r \<equiv> plain_detail (ar_detail r)"

lemma de_record_tree: "plain_record r \<Longrightarrow> de_record (record_tree r) = Some r"
  by (simp add: de_record_def record_tree_def de_struct_def req_def de_u64_def de_string_def
      json_u64_def norm_plain plain_detail_def)

lemma float_free_record_tree:
  "plain_record r \<Longrightarrow> float_free (record_tree r) \<and> nesting (record_tree r) \<le> 127"
  by (simp add: record_tree_def json_u64_def exact_num_def plain_float_free plain_detail_def)

lemma clean_record_line: "json_laws I \<Longrightarrow> clean_line (record_line I r)"
  by (simp add: json_laws_def record_line_def)

lemma parse_record_line: "json_laws I \<Longrightarrow> plain_record r \<Longrightarrow> parse_record I (record_line I r) = Ok r"
  using float_free_record_tree [of r]
  by (simp add: json_laws_def parse_record_def record_line_def from_json_str_def de_record_tree)

lemma read_record_line:
  assumes "json_laws I"
  shows "read_line (record_line I r) = Ok (record_line I r)" "trim (record_line I r) \<noteq> []"
  using clean_record_line [OF assms, of r]
  by (auto simp: read_line_def clean_line_trim clean_lineD clean_line_valid)

lemmas record_lines = parse_record_line read_record_line

text \<open>Records written by the agent, line by line, and what the three readers make of them.\<close>

lemma open_record_lines:
  assumes "json_laws I" "\<forall>r \<in> set rs. plain_record r"
  shows "open_lines I (map (record_line I) rs @ ls) sq h =
    open_lines I ls (foldl (\<lambda>_ r. ar_seq r) sq rs) (foldl (\<lambda>_ r. ar_hash r) h rs)"
  using assms by (induction rs arbitrary: sq h) (auto simp: record_lines)

lemma parse_record_lines:
  assumes "json_laws I" "\<forall>r \<in> set rs. plain_record r"
  shows "parse_log I (map (record_line I) rs) = Ok rs"
  using assms by (induction rs) (auto simp: record_lines)

lemma read_line_same: "read_line l = Ok k \<longleftrightarrow> utf8_valid l \<and> k = l"
  by (auto simp: read_line_def)

lemma parse_log_Cons:
  "parse_log I (l # ls) = Ok rs \<longleftrightarrow>
     utf8_valid l \<and>
     (if trim l = [] then parse_log I ls = Ok rs
      else \<exists>r rs'. parse_record I l = Ok r \<and> parse_log I ls = Ok rs' \<and> rs = r # rs')"
  by (auto simp: bind_res_Ok read_line_same split: if_splits)

lemma verify_blank:
  "utf8_valid l \<Longrightarrow> trim l = [] \<Longrightarrow> verify_lines I p n c (l # ls) = verify_lines I p n c ls"
  by (simp add: read_line_def)

lemma verify_step:
  "utf8_valid l \<Longrightarrow> trim l \<noteq> [] \<Longrightarrow> parse_record I l = Ok r \<Longrightarrow>
   verify_lines I p n c (l # ls) =
     (if link_ok I p n r then verify_lines I (ar_hash r) (n + 1) (c + 1) ls
      else Ok \<lparr>vr_records = c, vr_ok = False, vr_broken_at = Some (ar_seq r)\<rparr>)"
  by (simp add: read_line_def link_ok_def Let_def)

declare verify_lines.simps(2) [simp del] parse_log.simps(2) [simp del]

lemma verify_chain_lines:
  assumes "parse_log I ls = Ok rs" "chain I p n rs"
  shows "verify_lines I p n c ls =
    Ok \<lparr>vr_records = c + of_nat (length rs), vr_ok = True, vr_broken_at = None\<rparr>"
  using assms
  by (induction ls arbitrary: p n c rs)
    (auto simp: parse_log_Cons verify_blank verify_step algebra_simps split: if_splits)

lemma verify_record_lines:
  assumes "json_laws I" "\<forall>r \<in> set rs. plain_record r" "chain I p n rs"
  shows "verify_lines I p n c (map (record_line I) rs @ ls) =
    verify_lines I (foldl (\<lambda>_ r. ar_hash r) p rs) (n + of_nat (length rs)) (c + of_nat (length rs)) ls"
  using assms(2,3)
proof (induction rs arbitrary: p n c)
  case (Cons r rs)
  have "utf8_valid (record_line I r)" "trim (record_line I r) \<noteq> []"
    using clean_record_line [OF assms(1), of r]
    by (simp_all add: clean_line_trim clean_lineD clean_line_valid)
  with Cons show ?case
    by (simp add: verify_step parse_record_line [OF assms(1)] algebra_simps)
qed simp

lemma verify_lines_ok:
  assumes "verify_lines I p n c ls = Ok rep" "vr_ok rep"
  shows "\<exists>rs. parse_log I ls = Ok rs \<and> chain I p n rs"
  using assms
proof (induction ls arbitrary: p n c)
  case (Cons l ls)
  from Cons.prems(1) have l: "utf8_valid l"
    by (auto simp: verify_lines.simps(2) bind_res_Ok read_line_same)
  show ?case
  proof (cases "trim l = []")
    case True
    with Cons l show ?thesis by (simp add: verify_blank parse_log_Cons)
  next
    case False
    with Cons.prems(1) l obtain r where r: "parse_record I l = Ok r"
      by (auto simp: verify_lines.simps(2) bind_res_Ok read_line_same)
    with Cons.prems False l have lk: "link_ok I p n r"
      and v: "verify_lines I (ar_hash r) (n + 1) (c + 1) ls = Ok rep"
      by (auto simp: verify_step split: if_splits)
    from Cons.IH [OF v Cons.prems(2)] l r lk False show ?thesis
      by (auto simp: parse_log_Cons)
  qed
qed simp

lemma verify_broken_lines:
  assumes "parse_log I ls = Ok xs" "chain I p n xs" "parse_record I l = Ok r"
    and "utf8_valid l" "trim l \<noteq> []"
    and "\<not> link_ok I (foldl (\<lambda>_ r. ar_hash r) p xs) (n + of_nat (length xs)) r"
  shows "verify_lines I p n c (ls @ l # ks) =
    Ok \<lparr>vr_records = c + of_nat (length xs), vr_ok = False, vr_broken_at = Some (ar_seq r)\<rparr>"
  using assms
proof (induction ls arbitrary: p n c xs)
  case Nil
  then show ?case by (simp add: verify_step)
next
  case (Cons k ls)
  from Cons.prems(1) have k: "utf8_valid k" by (simp add: parse_log_Cons)
  show ?case
  proof (cases "trim k = []")
    case True
    with Cons k show ?thesis by (simp add: verify_blank parse_log_Cons)
  next
    case False
    with Cons.prems(1) obtain s xs' where
      s: "parse_record I k = Ok s" "parse_log I ls = Ok xs'" "xs = s # xs'"
      by (auto simp: parse_log_Cons)
    from Cons.IH [of xs' "ar_hash s" "n + 1" "c + 1"] Cons.prems s
    have "verify_lines I (ar_hash s) (n + 1) (c + 1) (ls @ l # ks) =
      Ok \<lparr>vr_records = c + of_nat (length xs), vr_ok = False, vr_broken_at = Some (ar_seq r)\<rparr>"
      by (simp add: algebra_simps)
    moreover have "link_ok I p n s" using Cons.prems(2) s by simp
    ultimately show ?thesis using k False s by (simp add: verify_step)
  qed
qed

end
