(* ===== verification/Audit_Thms.thy ===== *)
theory Audit_Thms
  imports Audit_Chain
begin

text \<open>
  The event log's contract. \<open>log_holds I al w rs\<close> says that the \<open>AuditLog\<close> value \<open>al\<close> and the
  file on the disk of \<open>w\<close> represent the list of records \<open>rs\<close>; \<open>file_records\<close> reads any file's
  records, however it came about.
\<close>

definition log_holds :: "'x iface \<Rightarrow> audit_log \<Rightarrow> 'x world \<Rightarrow> audit_record list \<Rightarrow> bool" where
  "log_holds I al w rs \<longleftrightarrow>
     chain I GENESIS 1 rs \<and> list_all plain_record rs
     \<and> w_noread w (al_path al) = None
     \<and> (case w_files w (al_path al) of None \<Rightarrow> rs = []
        | Some c \<Rightarrow> c = unlines (map (record_line I) rs))
     \<and> al_last_seq al = of_nat (length rs) \<and> al_last_hash al = end_hash rs"

definition file_records :: "'x iface \<Rightarrow> string \<Rightarrow> 'x world \<Rightarrow> (agent_error, audit_record list) result" where
  "file_records I p w =
     (case fs_open w p of
        Opened c \<Rightarrow> parse_log I (buf_lines c)
      | Not_found \<Rightarrow> Ok []
      | Open_failed m \<Rightarrow> Err (Io_err m))"

text \<open>The disk accepts writes to a file.\<close>

definition writable :: "'x world \<Rightarrow> string \<Rightarrow> bool" where
  "writable w p \<longleftrightarrow> w_nowrite w p = None \<and> w_quota w = None"

definition fresh_log :: "string \<Rightarrow> audit_log" where
  "fresh_log p = \<lparr>al_path = p, al_last_seq = 0, al_last_hash = GENESIS\<rparr>"

section \<open>Lemmas\<close>

lemma log_file_lines:
  assumes "json_laws I" "log_holds I al w rs"
  shows "fs_open w (al_path al) = Not_found \<and> rs = [] \<or>
    (\<exists>c. fs_open w (al_path al) = Opened c \<and> buf_lines c = map (record_line I) rs)"
  using assms clean_record_line [OF assms(1)]
  by (cases "w_files w (al_path al)") (auto simp: log_holds_def fs_open_def buf_lines_unlines)

lemma log_file_records:
  assumes "json_laws I" "log_holds I al w rs"
  shows "file_records I (al_path al) w = Ok rs"
  using log_file_lines [OF assms] assms
  by (auto simp: file_records_def parse_record_lines log_holds_def list_all_iff)

lemma append_steps:
  "audit_append I ev dt (al, w) =
     (let ts = fst (if_now I (w_ext w)); w1 = w\<lparr>w_ext := snd (if_now I (w_ext w))\<rparr>;
          r = next_record I al ts ev dt
      in case fs_append (al_path al) (record_line I r @ [NL]) w1 of
           (Done (Ok _), w2) \<Rightarrow>
             (Done (Ok r), (al\<lparr>al_last_seq := ar_seq r, al_last_hash := ar_hash r\<rparr>, w2))
         | (Done (Err e), w2) \<Rightarrow> (Done (Err e), (al, w2))
         | (Panicked m, w2) \<Rightarrow> (Panicked m, (al, w2))
         | (Dropped, w2) \<Rightarrow> (Dropped, (al, w2)))"
  by (auto simp: audit_append_def seqM_def tryM_def onSnd_def callM_def retM_def set_head_def
      record_line_def Let_def split: prod.splits exec.splits result.splits)

lemma next_record_link:
  "link_ok I (al_last_hash al) (al_last_seq al + 1) (next_record I al ts ev dt)"
  by (simp add: link_ok_def next_record_def Let_def)

lemma append_run:
  fixes ev :: string
  assumes "log_holds I al w rs" "plain_detail dt" "writable w (al_path al)"
  defines "r \<equiv> next_record I al (fst (if_now I (w_ext w))) ev dt"
  shows "\<exists>al' w'. audit_append I ev dt (al, w) = (Done (Ok r), (al', w'))
    \<and> al_path al' = al_path al \<and> log_holds I al' w' (rs @ [r])
    \<and> w_nowrite w' = w_nowrite w \<and> w_quota w' = w_quota w \<and> w_trace w' = w_trace w
    \<and> w_stop w' = w_stop w \<and> w_env w' = w_env w"
proof -
  have lk: "link_ok I (end_hash rs) (1 + of_nat (length rs)) r"
    using next_record_link [of I al "fst (if_now I (w_ext w))" ev dt] assms(1)
    by (simp add: r_def log_holds_def add.commute)
  then have ch: "chain I GENESIS 1 (rs @ [r])"
    using assms(1) by (simp add: audit.walk_snoc log_holds_def)
  have pl: "plain_record r" using assms(2) by (simp add: r_def next_record_def Let_def)
  have sq: "ar_seq r = of_nat (length (rs @ [r]))" using lk by (simp add: link_ok_def)
  show ?thesis
    using assms(1,3) ch pl sq
    by (auto simp: append_steps Let_def fs_append_def writable_def log_holds_def
        simp flip: r_def split: option.splits)
qed

section \<open>Writing and reading back\<close>

text \<open>
  C8. Appending an event to a log that holds a chain of records adds exactly one record, with that
  event and detail, at the end of the file and of the chain; the head in memory moves to it.
\<close>

theorem append_extends_log:
  assumes "json_laws I" "log_holds I al w rs" "plain_detail dt" "writable w (al_path al)"
  shows "\<exists>r al' w'. audit_append I ev dt (al, w) = (Done (Ok r), (al', w'))
    \<and> ar_event r = ev \<and> ar_detail r = dt \<and> al_path al' = al_path al
    \<and> log_holds I al' w' (rs @ [r]) \<and> file_records I (al_path al) w' = Ok (rs @ [r])"
proof -
  let ?r = "next_record I al (fst (if_now I (w_ext w))) ev dt"
  obtain al' w' where run: "audit_append I ev dt (al, w) = (Done (Ok ?r), (al', w'))"
    and path: "al_path al' = al_path al" and holds: "log_holds I al' w' (rs @ [?r])"
    using append_run [OF assms(2-4), of ev] by blast
  from log_file_records [OF assms(1) holds] path
  have "file_records I (al_path al) w' = Ok (rs @ [?r])" by simp
  moreover have "ar_event ?r = ev" "ar_detail ?r = dt" by (simp_all add: next_record_def Let_def)
  ultimately show ?thesis using run path holds by blast
qed

lemma sample_log_holds: "log_holds sample_iface (fresh_log ''log'') sample_world []"
  by (simp add: log_holds_def fresh_log_def sample_world_def)

lemma sample_writable: "writable sample_world p"
  by (simp add: writable_def sample_world_def)

theorem append_extends_log_witness:
  "\<exists>r al' w'. audit_append sample_iface ''RUN_START'' (json_obj [(''mode'', JStr ''ad'')])
        (fresh_log ''log'', sample_world) = (Done (Ok r), (al', w'))
    \<and> ar_event r = ''RUN_START'' \<and> ar_detail r = json_obj [(''mode'', JStr ''ad'')]
    \<and> al_path al' = al_path (fresh_log ''log'')
    \<and> log_holds sample_iface al' w' ([] @ [r])
    \<and> file_records sample_iface (al_path (fresh_log ''log'')) w' = Ok ([] @ [r])"
  by (rule append_extends_log [OF sample_json_laws sample_log_holds])
    (simp_all add: plain_detail_obj sample_writable)

lemma open_holds:
  assumes "json_laws I" "log_holds I al w rs"
  shows "audit_open I (al_path al) w = Ok al"
proof -
  have pl: "\<forall>r \<in> set rs. plain_record r" using assms(2) by (simp add: log_holds_def list_all_iff)
  have seqs: "chain I p n rs \<Longrightarrow> foldl (\<lambda>_ r. ar_seq r) s rs = (if rs = [] then s else n - 1 + of_nat (length rs))"
    for p n s
  proof (induction rs arbitrary: p n s)
    case (Cons r rs)
    from Cons.prems have "ar_seq r = n" by (simp add: link_ok_def)
    moreover from Cons.prems have "chain I (ar_hash r) (n + 1) rs" by simp
    ultimately show ?case using Cons.IH [of "ar_hash r" "n + 1" "ar_seq r"] by (auto simp: algebra_simps)
  qed simp
  have "foldl (\<lambda>_ r. ar_seq r) 0 rs = al_last_seq al"
    using seqs [of GENESIS 1 0] assms(2) by (auto simp: log_holds_def)
  with log_file_lines [OF assms] assms(2) show ?thesis
    by (auto simp: audit_open_def open_record_lines [OF assms(1) pl, of "[]", simplified] log_holds_def)
qed

text \<open>
  C25. Opening the log of a file that holds a chain (after a restart) recovers exactly the head the
  running agent had: its sequence number and hash.
\<close>

theorem open_recovers_head:
  assumes "json_laws I" "log_holds I al w rs"
  shows "audit_open I (al_path al) w = Ok al"
  using assms by (rule open_holds)

theorem open_recovers_head_witness:
  "audit_open sample_iface ''log'' sample_world = Ok (fresh_log ''log'')"
  using open_recovers_head [OF sample_json_laws sample_log_holds]
  by (simp add: fresh_log_def)

section \<open>Verifying\<close>

text \<open>What \<open>verify\<close> says of a file it accepts, and of a file the agent wrote.\<close>

lemma verify_ok_chain:
  assumes "verify I p w = Ok rep" "vr_ok rep"
  shows "\<exists>rs. file_records I p w = Ok rs \<and> chain I GENESIS 1 rs
        \<and> verify I p w = Ok \<lparr>vr_records = of_nat (length rs), vr_ok = True, vr_broken_at = None\<rparr>"
proof (cases "fs_open w p")
  case (Opened c)
  with assms obtain rs where rs: "parse_log I (buf_lines c) = Ok rs" "chain I GENESIS 1 rs"
    using verify_lines_ok by (fastforce simp: verify_def)
  with verify_chain_lines [OF rs, of 0] Opened show ?thesis
    by (auto simp: file_records_def verify_def)
next
  case Not_found
  then show ?thesis by (simp add: file_records_def verify_def)
next
  case (Open_failed m)
  with assms show ?thesis by (simp add: verify_def)
qed

lemma verify_holds:
  assumes "json_laws I" "log_holds I al w rs"
  shows "verify I (al_path al) w =
    Ok \<lparr>vr_records = of_nat (length rs), vr_ok = True, vr_broken_at = None\<rparr>"
proof -
  from assms(2) have ch: "chain I GENESIS 1 rs" and pl: "\<forall>r \<in> set rs. plain_record r"
    by (auto simp: log_holds_def list_all_iff)
  note v = verify_chain_lines [OF parse_record_lines [OF assms(1) pl] ch, of 0]
  from log_file_lines [OF assms] v show ?thesis by (auto simp: verify_def)
qed

lemma verify_chain:
  assumes "file_records I p w = Ok rs" "chain I GENESIS 1 rs"
  shows "verify I p w = Ok \<lparr>vr_records = of_nat (length rs), vr_ok = True, vr_broken_at = None\<rparr>"
  using assms verify_chain_lines [of I _ rs GENESIS 1 0]
  by (cases "fs_open w p") (auto simp: file_records_def verify_def)

lemma verify_chain_iff:
  "(\<exists>rep. verify I p w = Ok rep \<and> vr_ok rep) \<longleftrightarrow> (\<exists>rs. file_records I p w = Ok rs \<and> chain I GENESIS 1 rs)"
  using verify_ok_chain verify_chain by fastforce

text \<open>
  C9. \<open>verify\<close> reports an intact log exactly for the files whose every record parses and whose
  records form a chain from the genesis hash, and then it reports how many records there are.
\<close>

theorem verify_accepts_exactly_chains:
  "((\<exists>rep. verify I p w = Ok rep \<and> vr_ok rep) \<longleftrightarrow> (\<exists>rs. file_records I p w = Ok rs \<and> chain I GENESIS 1 rs))
   \<and> (\<forall>rs. file_records I p w = Ok rs \<and> chain I GENESIS 1 rs \<longrightarrow>
        verify I p w = Ok \<lparr>vr_records = of_nat (length rs), vr_ok = True, vr_broken_at = None\<rparr>)"
  using verify_chain_iff verify_chain by blast

text \<open>
  \<open>verify\<close> on a log the agent wrote reports every record and no break.
\<close>

theorem verify_accepts_written_log:
  assumes "json_laws I" "log_holds I al w rs"
  shows "verify I (al_path al) w =
    Ok \<lparr>vr_records = of_nat (length rs), vr_ok = True, vr_broken_at = None\<rparr>"
  using assms by (rule verify_holds)

theorem verify_accepts_written_log_witness:
  "verify sample_iface ''log'' sample_world =
     Ok \<lparr>vr_records = 0, vr_ok = True, vr_broken_at = None\<rparr>"
  using verify_accepts_written_log [OF sample_json_laws sample_log_holds]
  by (simp add: fresh_log_def)

text \<open>
  C26. At the first record that does not continue the chain \<open>verify\<close> stops and reports the number
  of good records before it and the sequence number that record claims.
\<close>

theorem verify_reports_first_break:
  assumes "fs_open w p = Opened c" "buf_lines c = ls @ l # ks"
    and "parse_log I ls = Ok xs" "chain I GENESIS 1 xs"
    and "utf8_valid l" "trim l \<noteq> []" "parse_record I l = Ok r"
    and "\<not> link_ok I (end_hash xs) (1 + of_nat (length xs)) r"
  shows "verify I p w =
    Ok \<lparr>vr_records = of_nat (length xs), vr_ok = False, vr_broken_at = Some (ar_seq r)\<rparr>"
  using verify_broken_lines [OF assms(3,4,7,5,6,8), of 0 ks] assms(1,2)
  by (simp add: verify_def)

definition bad_record :: audit_record where
  "bad_record = \<lparr>ar_seq = 7, ar_ts = ''t'', ar_event = ''RUN_START'', ar_detail = JNull,
     ar_prev_hash = ''x'', ar_hash = ''y''\<rparr>"

theorem verify_reports_first_break_witness:
  "verify sample_iface ''log''
     (sample_world\<lparr>w_files := [''log'' \<mapsto> record_line sample_iface bad_record @ [NL]]\<rparr>) =
   Ok \<lparr>vr_records = of_nat (length ([] :: audit_record list)), vr_ok = False, vr_broken_at = Some (ar_seq bad_record)\<rparr>"
proof (rule verify_reports_first_break)
  let ?l = "record_line sample_iface bad_record"
  have cl: "clean_line ?l" by (rule clean_record_line [OF sample_json_laws])
  then show "utf8_valid ?l" "trim ?l \<noteq> []" by (simp_all add: clean_line_trim clean_lineD clean_line_valid)
  show "buf_lines (?l @ [NL]) = [] @ ?l # []"
    using buf_lines_unlines [of "[?l]"] cl by simp
  show "parse_record sample_iface ?l = Ok bad_record"
    by (rule parse_record_line [OF sample_json_laws]) (simp add: bad_record_def plain_detail_def)
  show "\<not> link_ok sample_iface (end_hash []) (1 + of_nat (length [])) bad_record"
    by (simp add: link_ok_def bad_record_def)
qed (simp_all add: fs_open_def sample_world_def)

section \<open>What the chain protects\<close>





text \<open>The records and the file that result from appending given events at given times.\<close>

fun seal_events :: "'x iface \<Rightarrow> audit_log \<Rightarrow> (string \<times> string \<times> json) list \<Rightarrow> audit_record list" where
  "seal_events I al [] = []"
| "seal_events I al ((ts, ev, dt) # es) =
     (let r = next_record I al ts ev dt
      in r # seal_events I (al\<lparr>al_last_seq := ar_seq r, al_last_hash := ar_hash r\<rparr>) es)"

definition log_file :: "'x iface \<Rightarrow> audit_record list \<Rightarrow> string" where
  "log_file I rs = unlines (map (record_line I) rs)"

definition with_file :: "'x world \<Rightarrow> string \<Rightarrow> string \<Rightarrow> 'x world" where
  "with_file w p c = w\<lparr>w_files := (w_files w)(p \<mapsto> c)\<rparr>"

lemma chain_seal_events: "chain I (al_last_hash al) (al_last_seq al + 1) (seal_events I al es)"
proof (induction es arbitrary: al)
  case (Cons e es)
  obtain ts ev dt where e: "e = (ts, ev, dt)" by (cases e) auto
  let ?r = "next_record I al ts ev dt"
  have "link_ok I (al_last_hash al) (al_last_seq al + 1) ?r" by (rule next_record_link)
  moreover from this have "ar_seq ?r = al_last_seq al + 1" by (simp add: link_ok_def)
  ultimately show ?case
    using Cons [of "al\<lparr>al_last_seq := ar_seq ?r, al_last_hash := ar_hash ?r\<rparr>"]
    by (simp add: e Let_def)
qed simp

lemma events_seal_events:
  "map (\<lambda>r. (ar_ts r, ar_event r, ar_detail r)) (seal_events I al es) = es"
  by (induction es arbitrary: al) (auto simp: Let_def next_record_def)

lemma length_seal_events [simp]: "length (seal_events I al es) = length es"
  by (metis events_seal_events length_map)

lemma log_holds_file:
  assumes "chain I GENESIS 1 rs" "\<forall>r \<in> set rs. plain_record r" "w_noread w p = None"
  shows "log_holds I \<lparr>al_path = p, al_last_seq = of_nat (length rs), al_last_hash = end_hash rs\<rparr>
           (with_file w p (log_file I rs)) rs"
  using assms by (simp add: log_holds_def with_file_def log_file_def list_all_iff)

lemma plain_seal_events:
  "\<forall>e \<in> set es. plain_detail (snd (snd e)) \<Longrightarrow> \<forall>r \<in> set (seal_events I al es). plain_record r"
  by (induction es arbitrary: al) (auto simp: Let_def next_record_def)

lemma written_file:
  assumes "json_laws I" "\<forall>e \<in> set es. plain_detail (snd (snd e))" "w_noread w p = None"
  defines "rs \<equiv> seal_events I (fresh_log p) es"
  shows "file_records I p (with_file w p (log_file I rs)) = Ok rs"
    and "verify I p (with_file w p (log_file I rs))
      = Ok \<lparr>vr_records = of_nat (length es), vr_ok = True, vr_broken_at = None\<rparr>"
proof -
  have "chain I GENESIS 1 rs"
    using chain_seal_events [of I "fresh_log p" es] by (simp add: fresh_log_def rs_def)
  moreover have "\<forall>r \<in> set rs. plain_record r"
    unfolding rs_def by (rule plain_seal_events [OF assms(2)])
  ultimately have "log_holds I \<lparr>al_path = p, al_last_seq = of_nat (length rs), al_last_hash = end_hash rs\<rparr>
           (with_file w p (log_file I rs)) rs"
    using assms(3) by (intro log_holds_file) auto
  from log_file_records [OF assms(1) this] verify_holds [OF assms(1) this]
  show "file_records I p (with_file w p (log_file I rs)) = Ok rs"
    and "verify I p (with_file w p (log_file I rs))
      = Ok \<lparr>vr_records = of_nat (length es), vr_ok = True, vr_broken_at = None\<rparr>"
    by (simp_all add: rs_def)
qed

definition sample_events :: "(string \<times> string \<times> json) list" where
  "sample_events = [(''t1'', ''RUN_START'', JNull), (''t2'', ''AD_OP_OK'', JBool True),
                    (''t3'', ''RUN_STOP'', JNull)]"

definition sample_records :: "audit_record list" where
  "sample_records = seal_events sample_iface (fresh_log ''log'') sample_events"

lemma sample_events_plain: "\<forall>e \<in> set sample_events. plain_detail (snd (snd e))"
  by (simp add: sample_events_def plain_detail_def)

lemma sample_records_plain: "\<forall>r \<in> set sample_records. plain_record r"
  unfolding sample_records_def by (rule plain_seal_events [OF sample_events_plain])

lemma sample_file:
  shows "file_records sample_iface ''log'' (with_file sample_world ''log'' (log_file sample_iface sample_records))
     = Ok sample_records"
  and "verify sample_iface ''log'' (with_file sample_world ''log'' (log_file sample_iface sample_records))
     = Ok \<lparr>vr_records = 3, vr_ok = True, vr_broken_at = None\<rparr>"
  using written_file [OF sample_json_laws sample_events_plain, of sample_world "''log''"]
  by (simp_all add: sample_records_def sample_world_def sample_events_def)



section \<open>What the chain does not protect\<close>

text \<open>
  Cutting records off the end of the log is not detected: \<open>verify\<close> accepts the shortened file
  and merely counts fewer records.
\<close>

theorem truncated_log_verifies:
  assumes "json_laws I" "log_holds I al w (rs @ ss)"
  shows "verify I (al_path al) (with_file w (al_path al) (log_file I rs)) =
    Ok \<lparr>vr_records = of_nat (length rs), vr_ok = True, vr_broken_at = None\<rparr>"
proof -
  have "chain I GENESIS 1 rs" "\<forall>r \<in> set rs. plain_record r" "w_noread w (al_path al) = None"
    using assms(2) audit.walk_prefix by (auto simp: log_holds_def list_all_iff)
  note log_holds_file [OF this]
  from verify_holds [OF assms(1) this] show ?thesis by simp
qed

theorem truncated_log_verifies_witness:
  "verify sample_iface ''log'' (with_file sample_world ''log'' (log_file sample_iface [])) =
     Ok \<lparr>vr_records = 0, vr_ok = True, vr_broken_at = None\<rparr>
   \<and> (\<exists>al w rs. log_holds sample_iface al w ([] @ rs) \<and> length rs = 3)"
proof -
  let ?w = "with_file sample_world ''log'' (log_file sample_iface sample_records)"
  have "chain sample_iface GENESIS 1 sample_records"
    using verify_ok_chain [OF sample_file(2)] sample_file(1) by auto
  then have "\<exists>al. log_holds sample_iface al ?w ([] @ sample_records) \<and> al_path al = ''log''"
    using log_holds_file [OF _ sample_records_plain, of sample_iface sample_world "''log''"]
    by (auto simp: sample_world_def)
  then obtain al where al: "log_holds sample_iface al ?w ([] @ sample_records)" "al_path al = ''log''"
    by blast
  have "length sample_records = 3"
    unfolding sample_records_def length_seal_events by (simp add: sample_events_def)
  with truncated_log_verifies [OF sample_json_laws al(1)] al show ?thesis
    by (auto simp: with_file_def)
qed

text \<open>
  The chain has no secret: for any list of events one can write a file that \<open>verify\<close> accepts
  and that shows exactly these events, so rewriting the log from some record on goes unnoticed
  unless an earlier head was kept elsewhere.
\<close>

theorem any_history_verifies:
  assumes "json_laws I" "\<forall>e \<in> set es. plain_detail (snd (snd e))" "w_noread w p = None"
  shows "\<exists>c rs. file_records I p (with_file w p c) = Ok rs
    \<and> map (\<lambda>r. (ar_ts r, ar_event r, ar_detail r)) rs = es
    \<and> verify I p (with_file w p c)
        = Ok \<lparr>vr_records = of_nat (length es), vr_ok = True, vr_broken_at = None\<rparr>"
  using written_file [OF assms] events_seal_events by blast

theorem verify_accepts_exactly_chains_witness:
  "\<exists>w :: unit world. file_records sample_iface ''log'' w = Ok sample_records
     \<and> verify sample_iface ''log'' w
        = Ok \<lparr>vr_records = of_nat (length sample_records), vr_ok = True, vr_broken_at = None\<rparr>"
proof -
  have "chain sample_iface GENESIS 1 sample_records"
    using verify_ok_chain [OF sample_file(2)] sample_file(1) by auto
  with verify_accepts_exactly_chains sample_file(1) show ?thesis by blast
qed

theorem any_history_verifies_witness:
  "\<exists>c rs. file_records sample_iface ''log'' (with_file sample_world ''log'' c) = Ok rs
    \<and> map (\<lambda>r. (ar_ts r, ar_event r, ar_detail r)) rs = sample_events
    \<and> verify sample_iface ''log'' (with_file sample_world ''log'' c)
        = Ok \<lparr>vr_records = of_nat (length sample_events), vr_ok = True, vr_broken_at = None\<rparr>"
  by (rule any_history_verifies [OF sample_json_laws sample_events_plain])
    (simp add: sample_world_def)

section \<open>A write that fails half-way\<close>

text \<open>The record the next append at the world's clock would write, and its line.\<close>

definition upcoming :: "'x iface \<Rightarrow> audit_log \<Rightarrow> string \<Rightarrow> json \<Rightarrow> 'x world \<Rightarrow> audit_record" where
  "upcoming I al ev dt w = next_record I al (fst (if_now I (w_ext w))) ev dt"

definition torn_file :: "'x iface \<Rightarrow> audit_record list \<Rightarrow> nat \<Rightarrow> audit_record \<Rightarrow> string" where
  "torn_file I rs q r = log_file I rs @ take q (record_line I r @ [NL])"

lemma log_holds_content:
  "log_holds I al w rs \<Longrightarrow> (case w_files w (al_path al) of Some c \<Rightarrow> c | None \<Rightarrow> []) = log_file I rs"
  by (auto simp: log_holds_def log_file_def split: option.splits)

lemma append_torn:
  assumes "log_holds I al w rs" "w_nowrite w (al_path al) = None" "w_quota w = Some q"
    and "q \<le> length (record_line I (upcoming I al ev dt w))"
  shows "audit_append I ev dt (al, w) =
    (Done (Err (Io_err ''No space left on device'')),
     (al, with_file (w\<lparr>w_ext := snd (if_now I (w_ext w)), w_quota := Some 0\<rparr>) (al_path al)
            (torn_file I rs q (upcoming I al ev dt w))))"
  using assms(2-4) log_holds_content [OF assms(1)]
  by (simp add: append_steps Let_def fs_append_def upcoming_def torn_file_def with_file_def)

lemma append_ok_world:
  assumes "w_nowrite w (al_path al) = None" "w_quota w = None"
  shows "\<exists>al' w'. audit_append I ev dt (al, w) = (Done (Ok (upcoming I al ev dt w)), (al', w'))
    \<and> w_noread w' = w_noread w
    \<and> w_files w' (al_path al) = Some ((case w_files w (al_path al) of Some c \<Rightarrow> c | None \<Rightarrow> [])
          @ record_line I (upcoming I al ev dt w) @ [NL])"
  using assms by (simp add: append_steps Let_def fs_append_def upcoming_def)

lemma buf_lines_torn:
  assumes "json_laws I" "0 < q" "q \<le> length (record_line I r)"
  shows "buf_lines (torn_file I rs q r @ record_line I s @ [NL])
    = map (record_line I) rs @ [take q (record_line I r) @ record_line I s]"
proof -
  let ?l = "take q (record_line I r) @ record_line I s"
  have r: "clean_line (record_line I r)" and s: "clean_line (record_line I s)"
    using clean_record_line [OF assms(1)] by auto
  have "NL \<notin> set ?l" using r s by (auto dest: in_set_takeD clean_line_no_NL)
  moreover have "drop_cr ?l = ?l"
  proof -
    have "last ?l \<noteq> CR" using s by (auto simp: clean_line_def graphic_def byte_def)
    then show ?thesis by (simp add: drop_cr_def)
  qed
  ultimately have "buf_lines (?l @ [NL]) = [?l]"
    using buf_lines_line [of ?l "[]"] by simp
  then show ?thesis
    using assms(3) buf_lines_unlines_append [of "map (record_line I) rs" "?l @ [NL]"]
      clean_record_line [OF assms(1)]
    by (simp add: torn_file_def log_file_def)
qed

text \<open>A partial line that a whole one was appended to: the file can no longer be read.\<close>

lemma torn_unreadable:
  assumes "json_laws I" "\<forall>r \<in> set rs. plain_record r" "chain I GENESIS 1 rs"
    and "0 < q" "q \<le> length (record_line I r)" "if_json_of I (take q (record_line I r) @ record_line I s) = None"
    and opened: "fs_open w p = Opened (torn_file I rs q r @ record_line I s @ [NL])"
  shows "\<not> is_ok (audit_open I p w) \<and> \<not> is_ok (verify I p w)"
proof -
  let ?l = "take q (record_line I r) @ record_line I s"
  have s: "clean_line (record_line I s)" by (rule clean_record_line [OF assms(1)])
  then have "trim ?l \<noteq> []"
    by (intro trim_last_graphic) (auto simp: clean_line_def)
  moreover have "\<not> is_ok (parse_record I ?l)"
    using assms(6) by (simp add: parse_record_def from_json_str_def)
  ultimately have stop: "\<not> is_ok (open_lines I [?l] sq h)" "\<not> is_ok (verify_lines I p n c [?l])"
    for sq h p n c
    by (cases "parse_record I ?l"; simp add: read_line_def verify_lines.simps(2))+
  have lines: "buf_lines (torn_file I rs q r @ record_line I s @ [NL]) = map (record_line I) rs @ [?l]"
    by (rule buf_lines_torn [OF assms(1,4,5)])
  have "\<not> is_ok (audit_open I p w)"
    unfolding audit_open_def opened open_result.case lines open_record_lines [OF assms(1,2)]
    using stop(1) is_ok_bind_res by blast
  moreover have "\<not> is_ok (verify I p w)"
    unfolding verify_def opened open_result.case lines verify_record_lines [OF assms(1-3)]
    by (rule stop(2))
  ultimately show ?thesis by blast
qed

text \<open>
  When the disk fills up in the middle of a line, the append fails and the head in memory does
  not move; but the partial line stays, the next append (once there is room again) continues on it,
  and from then on neither a restart nor \<open>verify\<close> can read the log. The hypothesis on the parser
  is that a cut object followed by an object is no JSON document.
\<close>

theorem torn_append_breaks_log:
  assumes "json_laws I" "log_holds I al w rs"
    and "w_nowrite w (al_path al) = None" "w_quota w = Some q"
    and "0 < q" "q \<le> length (record_line I (upcoming I al ev dt w))"
    and "audit_append I ev dt (al, w) = (res, (al1, w1))"
    and "audit_append I ev2 dt2 (al1, w1\<lparr>w_quota := None\<rparr>) = (res2, (al2, w2))"
    and "\<And>r s. if_json_of I (take q (record_line I r) @ record_line I s) = None"
  shows "(\<exists>e. res = Done (Err e)) \<and> al1 = al \<and> (\<exists>r. res2 = Done (Ok r))
    \<and> \<not> is_ok (audit_open I (al_path al) w2) \<and> \<not> is_ok (verify I (al_path al) w2)"
proof -
  let ?r = "upcoming I al ev dt w" and ?w = "w1\<lparr>w_quota := None\<rparr>"
  note first = append_torn [OF assms(2,3,4,6)]
  from first assms(7) have e: "res = Done (Err (Io_err ''No space left on device''))" "al1 = al"
    and w1: "w1 = with_file (w\<lparr>w_ext := snd (if_now I (w_ext w)), w_quota := Some 0\<rparr>) (al_path al)
                   (torn_file I rs q ?r)"
    by auto
  let ?s = "upcoming I al ev2 dt2 ?w"
  have "w_nowrite ?w (al_path al) = None" "w_quota ?w = None"
    using assms(3) by (simp_all add: w1 with_file_def)
  note second = append_ok_world [OF this, of I ev2 dt2]
  have before: "w_files ?w (al_path al) = Some (torn_file I rs q ?r)"
    by (simp add: w1 with_file_def)
  from second [unfolded before option.case] assms(8) [unfolded e(2)]
  have ok: "res2 = Done (Ok ?s)" and nr: "w_noread w2 = w_noread ?w"
    and disk_now: "w_files w2 (al_path al) = Some (torn_file I rs q ?r @ record_line I ?s @ [NL])"
    by simp_all
  have pl: "\<forall>r \<in> set rs. plain_record r" and ch: "chain I GENESIS 1 rs"
    using assms(2) by (simp_all add: log_holds_def list_all_iff)
  have "fs_open w2 (al_path al) = Opened (torn_file I rs q ?r @ record_line I ?s @ [NL])"
    using disk_now nr assms(2) by (simp add: fs_open_def w1 with_file_def log_holds_def)
  from torn_unreadable [OF assms(1) pl ch assms(5,6,9) this] e ok show ?thesis by simp
qed

theorem torn_append_breaks_log_witness:
  "\<exists>al1 w1 res res2 s2.
     audit_append sample_iface ''RUN_START'' JNull (fresh_log ''log'', sample_world\<lparr>w_quota := Some 1\<rparr>)
       = (res, (al1, w1))
     \<and> audit_append sample_iface ''RUN_STOP'' JNull (al1, w1\<lparr>w_quota := None\<rparr>) = (res2, s2)
     \<and> (\<exists>e. res = Done (Err e)) \<and> (\<exists>r. res2 = Done (Ok r))
     \<and> \<not> is_ok (audit_open sample_iface ''log'' (snd s2))
     \<and> \<not> is_ok (verify sample_iface ''log'' (snd s2))"
proof -
  let ?al = "fresh_log ''log''" and ?w = "sample_world\<lparr>w_quota := Some 1\<rparr>"
  obtain res al1 w1 where one:
    "audit_append sample_iface ''RUN_START'' JNull (?al, ?w) = (res, (al1, w1))"
    by (metis prod.exhaust)
  obtain res2 al2 w2 where two:
    "audit_append sample_iface ''RUN_STOP'' JNull (al1, w1\<lparr>w_quota := None\<rparr>) = (res2, (al2, w2))"
    by (metis prod.exhaust)
  have holds: "log_holds sample_iface ?al ?w []"
    by (simp add: log_holds_def fresh_log_def sample_world_def)
  have cut: "if_json_of sample_iface (take 1 (record_line sample_iface r) @ record_line sample_iface s)
      = None" for r s
    using parse_cut_object [of "record_tree s"]
    by (simp add: sample_iface_def base_iface_def record_line_def record_tree_def)
  have long: "1 \<le> length (record_line sample_iface r)" for r
    using show_tree_Cons [of "record_tree r"] by (auto simp: record_line_def sample_iface_def base_iface_def)
  have "(\<exists>e. res = Done (Err e)) \<and> al1 = ?al \<and> (\<exists>r. res2 = Done (Ok r))
    \<and> \<not> is_ok (audit_open sample_iface (al_path ?al) w2)
    \<and> \<not> is_ok (verify sample_iface (al_path ?al) w2)"
    by (rule torn_append_breaks_log [OF sample_json_laws holds _ _ _ long one two cut])
      (simp_all add: sample_world_def)
  with one two show ?thesis by (auto simp: fresh_log_def)
qed

end
