(* ===== verification/Ad_Mode.thy ===== *)
theory Ad_Mode
  imports Directory Audit_Thms
begin

text \<open>
  \<open>src/modes/ad.rs\<close>: one drain pass of the provisioning queue. The state of a pass is the audit log
  and the machine; the connections to forests are a local variable of the pass (a \<open>HashMap\<close>, here
  a list of pairs in order of insertion, since its iteration order is not fixed).
\<close>

record ad_mode =
  am_server :: server_client
  am_ad :: ad_section
  am_cipher :: cipher
  am_verify_tls :: bool
  am_batch :: "32 word"

type_synonym forest_conns = "(string \<times> ldap_connector) list"

type_synonym ('x, 'a) pass = "(audit_log \<times> 'x world, 'a) act"

definition parse_attrs :: "'x iface \<Rightarrow> string option \<Rightarrow> (agent_error, (string \<times> string) list) result" where
  "parse_attrs I j =
     (case j of
        Some s \<Rightarrow> map_err (\<lambda>e. Ldap_err (''bad attributesJson: '' @ e))
                    (from_json_str I ''BTreeMap<String, String>'' de_str_map s)
      | None \<Rightarrow> Ok [])"

definition email :: "operation \<Rightarrow> (agent_error, string) result" where
  "email op = ok_or (Ldap_err ''operation has no userEmail to locate the account'') (op_user_email op)"

section \<open>One operation\<close>

definition dn_result :: "string \<Rightarrow> (string \<times> json) list \<Rightarrow> json" where
  "dn_result dn extra = json_obj ((''dn'', JStr dn) # extra)"

definition do_create :: "'x iface \<Rightarrow> ad_mode \<Rightarrow> operation \<Rightarrow> ldap_connector
    \<Rightarrow> ('x world, (agent_error, json) result) act" where
  "do_create I am op lc =
     tryM (liftM (parse_attrs I (op_attributes_json op))) (\<lambda>attrs.
       tryM (liftM (case op_encrypted_password op of
                      Some enc \<Rightarrow> bind_res (decrypt_serialized I (am_cipher am) enc) (\<lambda>p. Ok (Some p))
                    | None \<Rightarrow> Ok None)) (\<lambda>pw.
         tryM (create_account I lc attrs pw) (\<lambda>dn. retM (Ok (dn_result dn [])))))"

definition do_enable :: "'x iface \<Rightarrow> operation \<Rightarrow> ldap_connector
    \<Rightarrow> ('x world, (agent_error, json) result) act" where
  "do_enable I op lc =
     tryM (liftM (email op)) (\<lambda>em.
       tryM (enable_account I lc em) (\<lambda>dn.
         retM (Ok (dn_result dn [(''state'', JStr ''enabled'')]))))"

definition do_disable :: "'x iface \<Rightarrow> operation \<Rightarrow> ldap_connector
    \<Rightarrow> ('x world, (agent_error, json) result) act" where
  "do_disable I op lc =
     tryM (liftM (email op)) (\<lambda>em.
       tryM (disable_account I lc em) (\<lambda>dn.
         retM (Ok (dn_result dn [(''state'', JStr ''disabled'')]))))"

definition do_update :: "'x iface \<Rightarrow> operation \<Rightarrow> ldap_connector
    \<Rightarrow> ('x world, (agent_error, json) result) act" where
  "do_update I op lc =
     tryM (liftM (parse_attrs I (op_attributes_json op))) (\<lambda>attrs.
       tryM (liftM (email op)) (\<lambda>em.
         tryM (update_attributes I lc em attrs) (\<lambda>dn.
           retM (Ok (dn_result dn [(''updated'', json_u64 (of_nat (length attrs)))])))))"

definition do_test :: "'x iface \<Rightarrow> ldap_connector \<Rightarrow> ('x world, (agent_error, json) result) act" where
  "do_test I lc =
     tryM (test_base I lc) (\<lambda>n.
       retM (Ok (json_obj [(''ok'', JBool True), (''base_dn_entries'', json_u64 n)])))"

definition default_user_filter :: string where
  "default_user_filter = ''(&(objectClass=user)(objectCategory=person))''"

text \<open>A parameter of the request counts when it is given and not empty.\<close>

definition nonempty :: "string option \<Rightarrow> string option" where
  "nonempty v = (case v of Some s \<Rightarrow> if s \<noteq> [] then Some s else None | None \<Rightarrow> None)"

definition str_map_tree :: "(string \<times> string) list \<Rightarrow> json" where
  "str_map_tree m = json_obj (map (\<lambda>(k, v). (k, JStr v)) m)"

definition do_sync_users :: "'x iface \<Rightarrow> operation \<Rightarrow> ldap_connector
    \<Rightarrow> ('x world, (agent_error, json) result) act" where
  "do_sync_users I op lc =
     tryM (liftM (parse_attrs I (op_attributes_json op))) (\<lambda>params.
       tryM (liftM (case nonempty (map_of params ''userBaseDn'') of
                      Some b \<Rightarrow> Ok b
                    | None \<Rightarrow> ok_or (Ldap_err ''SYNC_USERS missing base DN'') (op_target_base_dn op)))
         (\<lambda>base.
           let flt = (case nonempty (map_of params ''filter'') of Some f \<Rightarrow> f | None \<Rightarrow> default_user_filter)
           in tryM (search_users I lc base flt) (\<lambda>users.
                retM (Ok (json_obj [(''users'', JArr (map str_map_tree users)),
                                    (''inspected'', json_u64 (of_nat (length users)))])))))"

definition process :: "'x iface \<Rightarrow> ad_mode \<Rightarrow> operation \<Rightarrow> ldap_connector
    \<Rightarrow> ('x world, (agent_error, json) result) act" where
  "process I am op lc =
     (if op_type op = ''CREATE_ACCOUNT'' then do_create I am op lc
      else if op_type op = ''ENABLE_ACCOUNT'' then do_enable I op lc
      else if op_type op = ''DISABLE_ACCOUNT'' then do_disable I op lc
      else if op_type op = ''UPDATE_ATTRIBUTES'' then do_update I op lc
      else if op_type op = ''TEST_CONNECTION'' then do_test I lc
      else if op_type op = ''SYNC_USERS'' then do_sync_users I op lc
      else retM (Err (Ldap_err (''unknown op type: '' @ op_type op))))"

text \<open>\<open>forest_conns\<close> is handed through, as the code mutates it.\<close>

definition with_conns :: "forest_conns \<Rightarrow> ('x world, (agent_error, json) result) act
    \<Rightarrow> ('x world, (agent_error, json) result \<times> forest_conns) act" where
  "with_conns conns m = seqM m (\<lambda>r. retM (r, conns))"

definition on_forest :: "'x iface \<Rightarrow> ad_mode \<Rightarrow> operation \<Rightarrow> string \<Rightarrow> forest_conns
    \<Rightarrow> ('x world, (agent_error, json) result \<times> forest_conns) act" where
  "on_forest I am op fid conns =
     (case map_of conns fid of
        Some lc \<Rightarrow> with_conns conns (process I am op lc)
      | None \<Rightarrow> panicM ''just inserted'')"

definition route_and_process :: "'x iface \<Rightarrow> ad_mode \<Rightarrow> operation \<Rightarrow> ldap_connector \<Rightarrow> forest_conns
    \<Rightarrow> ('x world, (agent_error, json) result \<times> forest_conns) act" where
  "route_and_process I am op default_ldap conns =
     (case op_forest_context_json op of
        Some j \<Rightarrow>
          (case map_err (\<lambda>e. Ldap_err (''bad forestContextJson: '' @ e))
                  (from_json_str I ''ForestContext'' de_forest_context j) of
             Err e \<Rightarrow> retM (Err e, conns)
           | Ok ctx \<Rightarrow>
               if map_of conns (fc_forest_id ctx) = None
               then seqM (connect_forest I ctx (op_target_base_dn op) (am_cipher am) (am_verify_tls am))
                      (\<lambda>r. case r of
                         Err e \<Rightarrow> retM (Err e, conns)
                       | Ok lc \<Rightarrow> on_forest I am op (fc_forest_id ctx) (conns @ [(fc_forest_id ctx, lc)]))
               else on_forest I am op (fc_forest_id ctx) conns)
      | None \<Rightarrow> with_conns conns (process I am op default_ldap))"

section \<open>A pass\<close>

definition ok_event :: "operation \<Rightarrow> json \<Rightarrow> json" where
  "ok_event op detail =
     json_obj [(''id'', JStr (op_id op)), (''op'', JStr (op_type op)), (''result'', detail)]"

definition fail_event :: "operation \<Rightarrow> string \<Rightarrow> json" where
  "fail_event op msg =
     json_obj [(''id'', JStr (op_id op)), (''op'', JStr (op_type op)), (''error'', JStr msg)]"

text \<open>Reporting and recording the outcome of one operation; a failed report is ignored.\<close>

definition settle :: "'x iface \<Rightarrow> ad_mode \<Rightarrow> operation \<Rightarrow> (agent_error, json) result
    \<Rightarrow> sync_counters \<Rightarrow> ('x, (agent_error, sync_counters) result) pass" where
  "settle I am op r c =
     (case r of
        Ok detail \<Rightarrow>
          seqM (onSnd (complete I (am_server am) (op_id op) True (Some (if_json_str I detail)) None)) (\<lambda>_.
            tryM (audit_append I ''AD_OP_OK'' (ok_event op detail)) (\<lambda>_.
              retM (Ok (record_ok (op_type op) c))))
      | Err e \<Rightarrow>
          seqM (onSnd (complete I (am_server am) (op_id op) False None (Some (error_str e)))) (\<lambda>_.
            tryM (audit_append I ''AD_OP_FAIL'' (fail_event op (error_str e))) (\<lambda>_.
              retM (Ok (record_failure c)))))"

fun drain :: "'x iface \<Rightarrow> ad_mode \<Rightarrow> ldap_connector \<Rightarrow> operation list \<Rightarrow> forest_conns \<Rightarrow> sync_counters
    \<Rightarrow> ('x, (agent_error, sync_counters \<times> forest_conns) result) pass" where
  "drain I am lc [] conns c = retM (Ok (c, conns))"
| "drain I am lc (op # ops) conns c =
     seqM (onSnd (route_and_process I am op lc conns)) (\<lambda>(r, conns').
       tryM (settle I am op r c) (\<lambda>c'. drain I am lc ops conns' c'))"

fun unbind_all :: "'x iface \<Rightarrow> ldap_connector list \<Rightarrow> ('x world, unit) act" where
  "unbind_all I [] = retM ()"
| "unbind_all I (lc # lcs) = seqM (unbind I lc) (\<lambda>_. unbind_all I lcs)"

text \<open>The pass in a given environment, and in the environment of the process.\<close>

definition ad_pass :: "'x iface \<Rightarrow> ad_mode \<Rightarrow> (string \<rightharpoonup> string)
    \<Rightarrow> ('x, (agent_error, sync_counters) result) pass" where
  "ad_pass I am env =
     (let ad = am_ad am
      in tryM (liftM (resolve I env (ad_bind_password ad))) (\<lambda>bind_pw.
           tryM (onSnd (ldap_connect I (ad_url ad) (ad_bind_dn ad) bind_pw (ad_base_dn ad)
                          (am_verify_tls am) (ad_use_kerberos ad) (ad_password_writeback ad))) (\<lambda>lc.
             tryM (onSnd (poll_operations I (am_server am) (am_batch am))) (\<lambda>ops.
               tryM (drain I am lc ops [] no_counts) (\<lambda>(c, conns).
                 seqM (onSnd (unbind_all I (lc # map snd conns))) (\<lambda>_. retM (Ok c)))))))"

definition ad_run_once :: "'x iface \<Rightarrow> ad_mode \<Rightarrow> ('x, (agent_error, sync_counters) result) pass" where
  "ad_run_once I am s = ad_pass I am (w_env (snd s)) s"

end
