(* ===== verification/Log_Frame.thy ===== *)
theory Log_Frame
  imports Audit_Thms Ldap Db_Connector
begin

text \<open>
  What the rest of the agent needs to know of the event log: an append either adds one record to
  the log or, when it fails, leaves it as it was, as long as the disk does not fill up
  (\<open>w_quota w = None\<close>; the file may well be unwritable). \<open>log_extends\<close> is the relation between the
  states before and after any part of the agent's run. The locale \<open>pass_frame\<close> is the contract
  between such relations and the sync modes: whatever is kept by the calls to other systems and by
  appends to the log is kept by every pass, at whatever await point it is cut off.
\<close>

definition log_extends :: "'x iface \<Rightarrow> audit_log \<times> 'x world \<Rightarrow> audit_log \<times> 'x world \<Rightarrow> bool" where
  "log_extends I s t \<longleftrightarrow> al_path (fst t) = al_path (fst s) \<and> w_nowrite (snd t) = w_nowrite (snd s)
     \<and> (w_quota (snd s) = None \<longrightarrow> w_quota (snd t) = None
          \<and> (\<forall>rs. log_holds I (fst s) (snd s) rs \<longrightarrow> (\<exists>ss. log_holds I (fst t) (snd t) (rs @ ss))))"

lemma log_extends_refl: "log_extends I s s"
proof -
  have "\<exists>ss. log_holds I (fst s) (snd s) (rs @ ss)" if "log_holds I (fst s) (snd s) rs" for rs
    using that by (intro exI [of _ "[]"]) simp
  then show ?thesis by (auto simp: log_extends_def)
qed

lemma log_extends_trans: "log_extends I s t \<Longrightarrow> log_extends I t u \<Longrightarrow> log_extends I s u"
  unfolding log_extends_def by (metis append_assoc)

lemma log_holds_disk: "disk_kept w w' \<Longrightarrow> log_holds I al w' rs \<longleftrightarrow> log_holds I al w rs"
  by (simp add: log_holds_def disk_kept_def)

lemma log_extends_calls:
  assumes "disk_kept w w'"
  shows "log_extends I (al, w) (al, w')"
proof -
  have "\<exists>ss. log_holds I al w' (rs @ ss)" if "log_holds I al w rs" for rs
    using that assms by (intro exI [of _ "[]"]) (simp add: log_holds_disk)
  with assms show ?thesis by (auto simp: log_extends_def disk_kept_def)
qed

text \<open>
  \<open>append_adds I ev dt s res t\<close>: what an append does to a log on a disk with room.
\<close>

definition append_adds :: "'x iface \<Rightarrow> string \<Rightarrow> json \<Rightarrow> audit_log \<times> 'x world
    \<Rightarrow> (agent_error, audit_record) result \<Rightarrow> audit_log \<times> 'x world \<Rightarrow> bool" where
  "append_adds I ev dt s res t \<longleftrightarrow>
     al_path (fst t) = al_path (fst s) \<and> w_quota (snd t) = None \<and> w_nowrite (snd t) = w_nowrite (snd s)
     \<and> w_trace (snd t) = w_trace (snd s)
     \<and> w_stop (snd t) = w_stop (snd s) \<and> w_env (snd t) = w_env (snd s)
     \<and> (\<forall>rs. log_holds I (fst s) (snd s) rs \<longrightarrow>
          (case res of Ok r \<Rightarrow> ar_event r = ev \<and> ar_detail r = dt \<and> log_holds I (fst t) (snd t) (rs @ [r])
           | Err _ \<Rightarrow> log_holds I (fst t) (snd t) rs))"

lemma append_head_moves:
  assumes "w_quota w = None"
  shows "\<exists>res t. audit_append I ev dt (al, w) = (Done res, t) \<and> w_quota (snd t) = None
    \<and> al_path (fst t) = al_path al \<and> w_nowrite (snd t) = w_nowrite w \<and> w_trace (snd t) = w_trace w
    \<and> w_stop (snd t) = w_stop w \<and> w_env (snd t) = w_env w
    \<and> (w_nowrite w (al_path al) = None \<longrightarrow> is_ok res)
    \<and> (w_nowrite w (al_path al) \<noteq> None \<longrightarrow>
         \<not> is_ok res \<and> fst t = al \<and> disk_kept w (snd t))"
  using assms
  by (auto simp: append_steps Let_def fs_append_def disk_kept_def split: option.splits)

lemma append_done:
  assumes "w_quota w = None" "plain_detail dt"
  shows "\<exists>res t. audit_append I ev dt (al, w) = (Done res, t) \<and> append_adds I ev dt (al, w) res t
    \<and> is_ok res = (w_nowrite w (al_path al) = None)"
proof -
  obtain res t where run: "audit_append I ev dt (al, w) = (Done res, t)"
    and t: "w_quota (snd t) = None" "al_path (fst t) = al_path al" "w_nowrite (snd t) = w_nowrite w"
      "w_trace (snd t) = w_trace w" "w_stop (snd t) = w_stop w" "w_env (snd t) = w_env w"
    and ok: "w_nowrite w (al_path al) = None \<longrightarrow> is_ok res"
    and no: "w_nowrite w (al_path al) \<noteq> None \<longrightarrow> \<not> is_ok res \<and> fst t = al \<and> disk_kept w (snd t)"
    using append_head_moves [OF assms(1)] by blast
  have "case res of Ok r \<Rightarrow> ar_event r = ev \<and> ar_detail r = dt \<and> log_holds I (fst t) (snd t) (rs @ [r])
           | Err _ \<Rightarrow> log_holds I (fst t) (snd t) rs" if h: "log_holds I al w rs" for rs
  proof (cases "w_nowrite w (al_path al) = None")
    case True
    with assms(1) have wr: "writable w (al_path al)" by (simp add: writable_def)
    let ?r = "next_record I al (fst (if_now I (w_ext w))) ev dt"
    obtain al' w' where "audit_append I ev dt (al, w) = (Done (Ok ?r), (al', w'))"
      "log_holds I al' w' (rs @ [?r])"
      using append_run [OF h assms(2) wr, of ev] by blast
    moreover have "ar_event ?r = ev" "ar_detail ?r = dt" by (simp_all add: next_record_def Let_def)
    ultimately show ?thesis using run by simp
  next
    case False
    with no h show ?thesis by (cases res) (auto simp: log_holds_disk)
  qed
  with run t ok no show ?thesis
    by (intro exI [of _ res] exI [of _ t]) (auto simp: append_adds_def)
qed

lemma keeps_log_append [frame_rules]:
  assumes "plain_detail dt"
  shows "keeps (log_extends I) (audit_append I ev dt)"
proof (rule keepsI)
  fix s :: "audit_log \<times> 'a world"
  obtain al w where s: "s = (al, w)" by fastforce
  show "log_extends I s (snd (audit_append I ev dt s))"
  proof (cases "w_quota w = None")
    case True
    then obtain res t where run: "audit_append I ev dt (al, w) = (Done res, t)"
      and adds: "append_adds I ev dt (al, w) res t"
      using append_done [OF _ assms] by blast
    from adds have "\<exists>ss. log_holds I (fst t) (snd t) (rs @ ss)" if "log_holds I al w rs" for rs
      using that unfolding append_adds_def
      by (cases res) (auto intro: exI [of _ "[]"])
    with run adds s show ?thesis by (auto simp: log_extends_def append_adds_def)
  next
    case False
    then show ?thesis
      by (auto simp: log_extends_def s append_steps Let_def fs_append_def split: option.split)
  qed
qed

section \<open>The interface to the sync modes\<close>

definition not_http :: "effect \<Rightarrow> bool" where
  "not_http e \<longleftrightarrow> (\<forall>r. e \<noteq> EHttp r)"

locale pass_frame = calls: world_frame R allowed + frame Q
  for R :: "'x world \<Rightarrow> 'x world \<Rightarrow> bool" and allowed
    and Q :: "audit_log \<times> 'x world \<Rightarrow> audit_log \<times> 'x world \<Rightarrow> bool" +
  fixes I :: "'x iface" and sc :: server_client
  assumes call_pair: "R w w' \<Longrightarrow> Q (al, w) (al, w')"
    and append_pair: "plain_detail dt \<Longrightarrow> keeps Q (audit_append I ev dt)"
    and client_allowed: "client_request sc r \<Longrightarrow> allowed (EHttp r)"
    and other_allowed: "not_http e \<Longrightarrow> allowed e"

lemma ldap_not_http: "is_ldap e \<Longrightarrow> not_http e"
  by (cases e) (auto simp: not_http_def)

lemma sql_not_http: "is_sql e \<Longrightarrow> not_http e"
  by (cases e) (auto simp: not_http_def)

sublocale pass_frame \<subseteq> ldap: ldap_frame R allowed
  by unfold_locales (blast intro: other_allowed ldap_not_http)

sublocale pass_frame \<subseteq> sql: sql_frame R allowed
  by unfold_locales (blast intro: other_allowed sql_not_http)

context pass_frame
begin

lemma keeps_pass_calls: "keeps R m \<Longrightarrow> keeps Q (onSnd m)"
  by (erule keeps_onSnd) (rule call_pair)

lemma keeps_pass_server:
  "keeps R (fetch_config I' sc)" "keeps R (poll_operations I' sc limit)"
  "keeps R (complete I' sc oid ok res err)" "keeps R (push_record I' sc path secret rec)"
  "keeps R (pull_writeback I' sc path secret)" "keeps R (heartbeat I' sc m h v d)"
  "keeps R (report_run I' sc m c)" "keeps R (disconnect I' sc reason)"
  by (rule calls.keeps_server, rule client_allowed, rule client_requests)+

end

interpretation log: pass_frame disk_kept any_effect "log_extends I" I sc for I sc
  by unfold_locales (auto intro: log_extends_refl log_extends_trans log_extends_calls keeps_log_append)

text \<open>Appends leave the shutdown's moment and the history of calls alone.\<close>

lemma append_world:
  "w_stop (snd (snd (audit_append I ev dt s))) = w_stop (snd s)"
  "w_trace (snd (snd (audit_append I ev dt s))) = w_trace (snd s)"
  "w_env (snd (snd (audit_append I ev dt s))) = w_env (snd s)"
  "w_nowrite (snd (snd (audit_append I ev dt s))) = w_nowrite (snd s)"
  by (cases s; auto simp: append_steps Let_def fs_append_def split: option.splits)+

definition snd_related :: "('x world \<Rightarrow> 'x world \<Rightarrow> bool) \<Rightarrow> audit_log \<times> 'x world
    \<Rightarrow> audit_log \<times> 'x world \<Rightarrow> bool" where
  "snd_related R s t \<longleftrightarrow> R (snd s) (snd t)"

interpretation stop: pass_frame counts_down any_effect "snd_related counts_down" I sc for I sc
proof unfold_locales
  fix s t u :: "audit_log \<times> 'a world"
  show "snd_related counts_down s s" by (simp add: snd_related_def countdown.frame_refl)
  show "snd_related counts_down s t \<Longrightarrow> snd_related counts_down t u \<Longrightarrow> snd_related counts_down s u"
    unfolding snd_related_def by (rule countdown.frame_trans)
next
  fix dt ev
  show "keeps (snd_related counts_down) (audit_append I ev dt)"
    by (rule keepsI) (auto simp: snd_related_def counts_down_def append_world split: option.split)
qed (simp_all add: snd_related_def)

text \<open>The calls that the agent's run may make: any to the directory and the database, and requests
  of one client.\<close>

definition speaks_as :: "server_client \<Rightarrow> effect \<Rightarrow> bool" where
  "speaks_as sc e \<longleftrightarrow> (\<forall>r. e = EHttp r \<longrightarrow> client_request sc r)"

interpretation client: pass_frame "sends (speaks_as sc)" "speaks_as sc"
    "snd_related (sends (speaks_as sc))" I sc for I sc
proof unfold_locales
  fix s t u :: "audit_log \<times> 'a world"
  show "snd_related (sends (speaks_as sc)) s s" by (simp add: snd_related_def sends.frame_refl)
  show "snd_related (sends (speaks_as sc)) s t \<Longrightarrow> snd_related (sends (speaks_as sc)) t u \<Longrightarrow>
      snd_related (sends (speaks_as sc)) s u"
    unfolding snd_related_def by (rule sends.frame_trans)
next
  fix dt ev
  show "keeps (snd_related (sends (speaks_as sc))) (audit_append I ev dt)"
    by (rule keepsI) (auto simp: snd_related_def sends_def append_world)
qed (auto simp: snd_related_def speaks_as_def not_http_def)

lemma panic_free_append [panic_rules]: "panic_free (audit_append I ev dt)"
proof -
  have app: "\<exists>r w'. fs_append p l w = (Done r, w')" for p l and w :: "'a world"
    by (auto simp: fs_append_def Let_def split: option.split)
  have "fst (audit_append I ev dt (al, w)) \<noteq> Panicked p" for al w p
  proof -
    let ?r = "next_record I al (fst (if_now I (w_ext w))) ev dt"
    obtain r w' where "fs_append (al_path al) (record_line I ?r @ [NL])
        (w\<lparr>w_ext := snd (if_now I (w_ext w))\<rparr>) = (Done r, w')"
      using app by blast
    then show ?thesis by (cases r) (simp_all add: append_steps Let_def)
  qed
  then show ?thesis by (auto simp: panic_free_def)
qed

section \<open>Runs that nothing interrupts\<close>

text \<open>No shutdown, room on the disk, and a log file that can be written.\<close>

definition ready :: "audit_log \<times> 'x world \<Rightarrow> bool" where
  "ready s \<longleftrightarrow> w_stop (snd s) = None \<and> writable (snd s) (al_path (fst s))"

lemma finishes_onSnd:
  assumes "finishes calm_world P m" "keeps disk_kept m"
  shows "finishes ready P (onSnd m)"
  unfolding finishes_def
proof (intro allI impI)
  fix s :: "audit_log \<times> 'a world"
  assume s: "ready s"
  obtain al w where sw: "s = (al, w)" by fastforce
  from s sw have "calm_world w" by (simp add: ready_def)
  with assms(1) obtain a w' where m: "m w = (Done a, w')" "P a" "calm_world w'" by (rule finishesE)
  have "disk_kept w w'" using keepsD [OF assms(2) m(1)] .
  with s sw m(3) have "ready (al, w')" by (simp add: ready_def writable_def disk_kept_def)
  with m sw show "\<exists>a t. onSnd m s = (Done a, t) \<and> P a \<and> ready t" by (auto simp: onSnd_Done)
qed

lemma finishes_append:
  assumes "plain_detail dt"
  shows "finishes ready is_ok (audit_append I ev dt)"
  unfolding finishes_def
proof (intro allI impI)
  fix s :: "audit_log \<times> 'a world"
  assume s: "ready s"
  obtain al w where sw: "s = (al, w)" by fastforce
  from s sw have "w_quota w = None" by (simp add: ready_def writable_def)
  from append_done [OF this assms] obtain res t where
    "audit_append I ev dt (al, w) = (Done res, t)" "append_adds I ev dt (al, w) res t"
    "is_ok res = (w_nowrite w (al_path al) = None)" by blast
  with s sw show "\<exists>a t. audit_append I ev dt s = (Done a, t) \<and> is_ok a \<and> ready t"
    by (auto simp: ready_def writable_def append_adds_def)
qed

lemma finishes_tryM_ok:
  assumes "finishes ready is_ok m" "\<And>a. finishes ready P (f a)"
  shows "finishes ready P (tryM m f)"
  unfolding tryM_def
  by (rule finishes_seqM_post [OF assms(1)]) (use assms(2) in \<open>auto split: result.split\<close>)

end
