(* ===== verification/Ad_Thms.thy ===== *)
theory Ad_Thms
  imports Ad_Mode Log_Frame
begin

text \<open>
  What a drain pass promises: every operation of the batch is answered and recorded exactly once
  and in order, the counters add up, and the log stays a chain wherever the pass is cut off.
\<close>

section \<open>Results of operations\<close>

text \<open>What an operation answers can be recorded in the log.\<close>

definition plain_outcome :: "(agent_error, json) result \<Rightarrow> bool" where
  "plain_outcome r \<longleftrightarrow> (case r of Ok d \<Rightarrow> plain_value d \<and> nesting d \<le> 3 | Err e \<Rightarrow> True)"

lemma plain_Err: "plain_outcome (Err e)"
  by (simp add: plain_outcome_def)

lemma plain_obj_Ok:
  "\<forall>kv \<in> set kvs. plain_value (snd kv) \<and> nesting (snd kv) \<le> 2 \<Longrightarrow> plain_outcome (Ok (json_obj kvs))"
  using nesting_json_obj [of kvs 2] by (auto simp: plain_outcome_def plain_json_obj)

lemma plain_dn_result: "\<forall>kv \<in> set kvs. plain_value (snd kv) \<and> nesting (snd kv) \<le> 2 \<Longrightarrow>
    plain_outcome (Ok (dn_result dn kvs))"
  unfolding dn_result_def by (intro plain_obj_Ok) auto

lemma plain_str_map: "plain_value (str_map_tree m) \<and> nesting (str_map_tree m) \<le> 1"
proof -
  have "\<forall>kv \<in> set (map (\<lambda>(k, v). (k, JStr v)) m). plain_value (snd kv) \<and> nesting (snd kv) \<le> 0"
    by (auto split: prod.splits)
  then show ?thesis
    using nesting_json_obj [of "map (\<lambda>(k, v). (k, JStr v)) m" 0]
      plain_json_obj [of "map (\<lambda>(k, v). (k, JStr v)) m"] by (simp add: str_map_tree_def)
qed

lemma plain_users:
  "plain_outcome (Ok (json_obj [(''users'', JArr (map str_map_tree users)), (''inspected'', json_u64 n)]))"
proof (rule plain_obj_Ok)
  have "nesting (JArr (map str_map_tree users)) \<le> 2"
    using plain_str_map foldr_max_le [of "map (\<lambda>m. nesting (str_map_tree m)) users" 1]
    by (auto simp: comp_def)
  then show "\<forall>kv\<in>set [(''users'', JArr (map str_map_tree users)), (''inspected'', json_u64 n)].
       plain_value (snd kv) \<and> nesting (snd kv) \<le> 2"
    using plain_str_map by (auto simp: list_all_iff)
qed

lemma process_plain: "returns plain_outcome (process I am op lc)"
proof -
  note rules = returns_tryM returns_retM plain_Err plain_dn_result plain_obj_Ok plain_users
  show ?thesis
    unfolding process_def do_create_def do_enable_def do_disable_def do_update_def do_test_def
      do_sync_users_def Let_def
    by (simp split del: if_split split: option.splits) (auto intro!: rules)
qed

lemma route_plain: "returns (\<lambda>(r, conns). plain_outcome r) (route_and_process I am op lc conns)"
proof -
  have p: "returns (\<lambda>(r, conns). plain_outcome r) (with_conns cs (process I am op l))" for cs l
    unfolding with_conns_def returns_def
    by (auto simp: retM_def elim!: seqM_DoneE dest!: returnsD [OF process_plain])
  then have f: "returns (\<lambda>(r, conns). plain_outcome r) (on_forest I am op fid cs)" for fid cs
    by (auto simp: on_forest_def returns_def panicM_def split: option.splits)
  show ?thesis
    unfolding route_and_process_def
    by (auto intro!: p f returns_seqM returns_retM simp: plain_Err split: option.split result.split)
qed

section \<open>Frames\<close>

context ldap_frame
begin

lemma keeps_process [frame_rules]: "keeps R (process I am op lc)"
  unfolding process_def do_create_def do_enable_def do_disable_def do_update_def do_test_def
      do_sync_users_def Let_def
  by (auto intro!: frame_rules)

lemma keeps_route [frame_rules]: "keeps R (route_and_process I am op lc conns)"
  unfolding route_and_process_def on_forest_def with_conns_def
  by (auto intro!: frame_rules split: option.split result.split)

lemma keeps_unbind_all [frame_rules]: "keeps R (unbind_all I lcs)"
  by (induction lcs) (auto intro!: frame_rules)

end

lemma panic_free_process [panic_rules]: "panic_free (process I am op lc)"
  unfolding process_def do_create_def do_enable_def do_disable_def do_update_def do_test_def
      do_sync_users_def Let_def
  by (auto intro!: panic_rules)

lemma panic_free_route [panic_rules]: "panic_free (route_and_process I am op lc conns)"
proof -
  have "panic_free (on_forest I am op fid cs)" if "map_of cs fid \<noteq> None" for fid cs
    using that by (auto simp: on_forest_def with_conns_def intro!: panic_rules)
  then show ?thesis
    unfolding route_and_process_def with_conns_def
    by (auto intro!: panic_rules simp: map_add_def split: option.split result.split)
qed

lemma panic_free_unbind_all [panic_rules]: "panic_free (unbind_all I lcs)"
  by (induction lcs) (auto intro!: panic_rules)

lemma panic_free_drain [panic_rules]: "panic_free (drain I am lc ops conns c)"
  by (induction ops arbitrary: conns c)
    (auto intro!: panic_rules simp: settle_def split: result.split)

lemma plain_events:
  "plain_outcome (Ok d) \<Longrightarrow> plain_detail (ok_event op d)"
  "plain_detail (fail_event op m)"
  unfolding ok_event_def fail_event_def by (auto intro!: plain_detail_obj simp: plain_outcome_def)

context pass_frame
begin

lemma keeps_settle:
  assumes "am_server am = sc" "plain_outcome r"
  shows "keeps Q (settle I am op r c)"
  unfolding settle_def assms(1)
  by (cases r) (use assms(2) in \<open>auto intro!: keeps_seqM keeps_tryM keeps_retM keeps_pass_calls
      keeps_pass_server append_pair plain_events\<close>)

lemma keeps_drain:
  assumes "am_server am = sc"
  shows "keeps Q (drain I am lc ops conns c)"
proof (induction ops arbitrary: conns c)
  case (Cons op ops)
  have route: "keeps Q (onSnd (route_and_process I am op lc conns))"
    by (intro keeps_pass_calls ldap.keeps_route)
  show ?case
    unfolding drain.simps
    by (rule keeps_seqM_returns [OF route returnsD [OF returns_onSnd [OF route_plain]]])
      (auto intro!: keeps_tryM keeps_settle assms Cons.IH)
qed (simp add: keeps_retM)

lemma keeps_ad:
  assumes "am_server am = sc"
  shows "keeps Q (ad_run_once I am)"
proof -
  have "keeps Q (ad_pass I am env)" for env
    unfolding ad_pass_def Let_def assms
    by (intro keeps_tryM keeps_liftM keeps_pass_calls keeps_drain ldap.keeps_ldap
        keeps_pass_server assms) (auto intro!: keeps_seqM keeps_retM keeps_pass_calls ldap.keeps_unbind_all
        simp del: unbind_all.simps)
  then show ?thesis by (simp add: keeps_def ad_run_once_def)
qed

end

lemma panic_free_ad [panic_rules]: "panic_free (ad_run_once I am)"
proof -
  have "panic_free (ad_pass I am env)" for env
    unfolding ad_pass_def Let_def
    by (auto intro!: panic_rules simp del: unbind_all.simps)
  then show ?thesis by (simp add: panic_free_def ad_run_once_def)
qed

section \<open>Passes that nothing interrupts\<close>

lemma finishes_process [finish_rules]: "finishes calm_world any_value (process I am op lc)"
  unfolding process_def do_create_def do_enable_def do_disable_def do_update_def do_test_def
      do_sync_users_def Let_def
  by (auto intro!: finish_rules)

lemma finishes_route [finish_rules]: "finishes calm_world any_value (route_and_process I am op lc conns)"
proof -
  have "finishes calm_world any_value (on_forest I am op fid cs)" if "map_of cs fid \<noteq> None" for fid cs
    using that by (auto simp: on_forest_def with_conns_def intro!: finish_rules)
  then show ?thesis
    unfolding route_and_process_def with_conns_def
    by (auto intro!: finish_rules simp: map_add_def split: option.split result.split)
qed

lemma finishes_unbind_all [finish_rules]: "finishes calm_world any_value (unbind_all I lcs)"
  by (induction lcs) (auto intro!: finish_rules)

lemma finishes_settle:
  "plain_outcome r \<Longrightarrow> finishes ready is_ok (settle I am op r c)"
  unfolding settle_def
  by (cases r) (auto intro!: finishes_seqM finishes_onSnd finish_rules finishes_tryM_ok finishes_append
      disk.keeps_server plain_events)

lemma finishes_drain: "finishes ready is_ok (drain I am lc ops conns c)"
proof (induction ops arbitrary: conns c)
  case (Cons op ops)
  have "finishes ready (\<lambda>(r, conns). plain_outcome r) (onSnd (route_and_process I am op lc conns))"
  proof (rule finishes_onSnd [OF _ disk_ldap.keeps_route])
    have "\<exists>a t. route_and_process I am op lc conns s = (Done a, t) \<and> (case a of (r, conns) \<Rightarrow> plain_outcome r)
        \<and> calm_world t" if "calm_world s" for s :: "'a world"
      using finishesE [OF finishes_route that] returnsD [OF route_plain] by metis
    then show "finishes calm_world (\<lambda>(r, conns). plain_outcome r) (route_and_process I am op lc conns)"
      by (simp add: finishes_def)
  qed
  then show ?case
    unfolding drain.simps
    by (rule finishes_seqM_post) (auto intro!: finishes_tryM_ok finishes_settle Cons.IH)
qed (simp add: finishes_retM)

section \<open>The specification of a pass\<close>

text \<open>The POST requests in a history, in order.\<close>

fun posts :: "effect list \<Rightarrow> http_req list" where
  "posts [] = []"
| "posts (EHttp r # es) = (if rq_method r = POST then r # posts es else posts es)"
| "posts (_ # es) = posts es"

lemma posts_append [simp]: "posts (es @ fs) = posts es @ posts fs"
  by (induction es rule: posts.induct) auto

lemma posts_ldap: "list_all is_ldap es \<Longrightarrow> posts es = []"
  by (induction es rule: posts.induct) auto

text \<open>What the broker is told and what the log records of an operation's outcome.\<close>

fun outcome_request :: "'x iface \<Rightarrow> server_client \<Rightarrow> operation \<times> (agent_error, json) result \<Rightarrow> http_req" where
  "outcome_request I sc (op, Ok d) = complete_request sc (op_id op) True (Some (if_json_str I d)) None"
| "outcome_request I sc (op, Err e) = complete_request sc (op_id op) False None (Some (error_str e))"

fun outcome_event :: "operation \<times> (agent_error, json) result \<Rightarrow> string \<times> json" where
  "outcome_event (op, Ok d) = (''AD_OP_OK'', ok_event op d)"
| "outcome_event (op, Err e) = (''AD_OP_FAIL'', fail_event op (error_str e))"

fun count_outcome :: "operation \<times> (agent_error, json) result \<Rightarrow> sync_counters \<Rightarrow> sync_counters" where
  "count_outcome (op, Ok d) c = record_ok (op_type op) c"
| "count_outcome (op, Err e) c = record_failure c"

text \<open>
  Each outcome is what routing and processing its operation gave, in the world and with the forest
  connections that dealing with the operations before it left.
\<close>

fun handled :: "'x iface \<Rightarrow> ad_mode \<Rightarrow> ldap_connector \<Rightarrow> forest_conns \<Rightarrow> 'x world
    \<Rightarrow> (operation \<times> (agent_error, json) result) list \<Rightarrow> 'x world \<Rightarrow> bool" where
  "handled I am lc conns w [] w' = (w' = w)"
| "handled I am lc conns w ((op, r) # outs) w' = (\<exists>conns' v al c al' c' u.
     route_and_process I am op lc conns w = (Done (r, conns'), v)
     \<and> settle I am op r c (al, v) = (Done (Ok c'), (al', u))
     \<and> handled I am lc conns' u outs w')"

text \<open>The records and calls that a part of the run adds, on a disk with room.\<close>

definition adds :: "'x iface \<Rightarrow> audit_log \<times> 'x world \<Rightarrow> (string \<times> json) list \<Rightarrow> http_req list
    \<Rightarrow> audit_log \<times> 'x world \<Rightarrow> bool" where
  "adds I s evs rqs t \<longleftrightarrow>
     al_path (fst t) = al_path (fst s) \<and> w_quota (snd t) = None
     \<and> (\<exists>es. w_trace (snd t) = w_trace (snd s) @ es \<and> posts es = rqs)
     \<and> (\<forall>rs. log_holds I (fst s) (snd s) rs \<longrightarrow>
          (\<exists>ss. log_holds I (fst t) (snd t) (rs @ ss) \<and> map (\<lambda>r. (ar_event r, ar_detail r)) ss = evs))"

lemma adds_trans:
  assumes "adds I s evs rqs t" "adds I t evs' rqs' u"
  shows "adds I s (evs @ evs') (rqs @ rqs') u"
proof -
  from assms obtain es es' where "w_trace (snd u) = w_trace (snd s) @ es @ es'"
    "posts (es @ es') = rqs @ rqs'" by (auto simp: adds_def)
  moreover have "\<exists>ss. log_holds I (fst u) (snd u) (rs @ ss) \<and> map (\<lambda>r. (ar_event r, ar_detail r)) ss = evs @ evs'"
    if "log_holds I (fst s) (snd s) rs" for rs
  proof -
    from that assms(1) obtain ss where "log_holds I (fst t) (snd t) (rs @ ss)"
      "map (\<lambda>r. (ar_event r, ar_detail r)) ss = evs" by (auto simp: adds_def)
    moreover from this(1) assms(2) obtain ss' where "log_holds I (fst u) (snd u) ((rs @ ss) @ ss')"
      "map (\<lambda>r. (ar_event r, ar_detail r)) ss' = evs'" unfolding adds_def by blast
    ultimately show ?thesis by (intro exI [of _ "ss @ ss'"]) auto
  qed
  ultimately show ?thesis using assms by (auto simp: adds_def)
qed

lemma adds_calls:
  assumes "onSnd m s = (Done a, t)" "keeps disk_kept m" "w_quota (snd s) = None"
    and "\<exists>es. w_trace (snd t) = w_trace (snd s) @ es \<and> posts es = rqs"
  shows "adds I s [] rqs t"
proof -
  obtain al w al' w' where st: "s = (al, w)" "t = (al', w')" by fastforce
  from assms(1) have eq: "al' = al" and m: "m w = (Done a, w')" by (simp_all add: st onSnd_Done)
  have k: "disk_kept w w'" using keepsD [OF assms(2) m] .
  have "\<exists>ss. log_holds I al w' (rs @ ss) \<and> map (\<lambda>r. (ar_event r, ar_detail r)) ss = []"
    if "log_holds I al w rs" for rs
    using that k by (intro exI [of _ "[]"]) (simp add: log_holds_disk)
  with assms(3,4) k show ?thesis by (auto simp: adds_def st eq disk_kept_def)
qed

lemma adds_ldap:
  assumes "onSnd m s = (Done a, t)" "keeps disk_kept m" "keeps (sends is_ldap) m" "w_quota (snd s) = None"
  shows "adds I s [] [] t"
proof -
  obtain al w al' w' where st: "s = (al, w)" "t = (al', w')" by fastforce
  from assms(1) have m: "m w = (Done a, w')" by (simp add: st onSnd_Done)
  from keepsD [OF assms(3) m] have "\<exists>es. w_trace w' = w_trace w @ es \<and> posts es = []"
    by (auto simp: sends_def posts_ldap)
  then show ?thesis by (intro adds_calls [OF assms(1,2,4)]) (simp add: st)
qed

lemma adds_append:
  assumes "audit_append I ev dt s = (Done (Ok r), t)" "plain_detail dt" "w_quota (snd s) = None"
  shows "adds I s [(ev, dt)] [] t"
proof -
  obtain al w where s: "s = (al, w)" by fastforce
  with assms append_done [of w dt I ev al] have "append_adds I ev dt s (Ok r) t" by auto
  then show ?thesis unfolding append_adds_def adds_def by fastforce
qed

lemma send_or_Done:
  assumes "send_or I sc what rq w = (Done a, w')"
  shows "w_trace w' = w_trace w @ [EHttp rq]"
  using assms unfolding send_or_def send_def by (rule request_Done)

lemma complete_Done:
  assumes "complete I sc oid ok res err w = (Done a, w')"
  shows "w_trace w' = w_trace w @ [EHttp (complete_request sc oid ok res err)]"
  using assms unfolding complete_def
  by (rule tryM_DoneE) (auto dest!: send_or_Done split: if_splits)

lemma adds_complete:
  assumes "onSnd (complete I sc oid ok res err) s = (Done a, t)" "w_quota (snd s) = None"
  shows "adds I s [] [complete_request sc oid ok res err] t"
proof (rule adds_calls [OF assms(1) _ assms(2)])
  show "keeps disk_kept (complete I sc oid ok res err)" by (rule disk.keeps_server(3)) simp
  show "\<exists>es. w_trace (snd t) = w_trace (snd s) @ es \<and> posts es = [complete_request sc oid ok res err]"
    using assms(1) complete_Done
    by (cases s, cases t) (fastforce simp: onSnd_Done complete_request_def)
qed

lemma settle_adds:
  assumes "settle I am op r c s = (Done (Ok c'), t)" "plain_outcome r" "w_quota (snd s) = None"
  shows "adds I s [outcome_event (op, r)] [outcome_request I (am_server am) (op, r)] t
    \<and> c' = count_outcome (op, r) c"
proof (cases r)
  case (Ok d)
  obtain a s1 ar where
    c: "onSnd (complete I (am_server am) (op_id op) True (Some (if_json_str I d)) None) s = (Done a, s1)"
    and l: "audit_append I ''AD_OP_OK'' (ok_event op d) s1 = (Done (Ok ar), t)"
    and c': "c' = record_ok (op_type op) c"
    using assms(1) unfolding settle_def Ok result.case
    by (elim seqM_DoneE tryM_OkE) simp
  note one = adds_complete [OF c assms(3)]
  then have "w_quota (snd s1) = None" by (simp add: adds_def)
  from adds_trans [OF one adds_append [OF l plain_events(1) this]] assms(2) Ok c'
  show ?thesis by simp
next
  case (Err e)
  obtain a s1 ar where
    c: "onSnd (complete I (am_server am) (op_id op) False None (Some (error_str e))) s = (Done a, s1)"
    and l: "audit_append I ''AD_OP_FAIL'' (fail_event op (error_str e)) s1 = (Done (Ok ar), t)"
    and c': "c' = record_failure c"
    using assms(1) unfolding settle_def Err result.case
    by (elim seqM_DoneE tryM_OkE) simp
  note one = adds_complete [OF c assms(3)]
  then have "w_quota (snd s1) = None" by (simp add: adds_def)
  from adds_trans [OF one adds_append [OF l plain_events(2) this]] Err c'
  show ?thesis by simp
qed

lemma adds_none: "w_quota (snd s) = None \<Longrightarrow> adds I s [] [] s"
  unfolding adds_def by (auto intro: exI [of _ "[]"])

lemma drain_adds:
  assumes "drain I am lc ops conns c s = (Done (Ok (c', conns')), t)" "w_quota (snd s) = None"
  shows "\<exists>outs. map fst outs = ops \<and> handled I am lc conns (snd s) outs (snd t)
    \<and> adds I s (map outcome_event outs) (map (outcome_request I (am_server am)) outs) t
    \<and> c' = fold count_outcome outs c"
  using assms
proof (induction ops arbitrary: conns c s)
  case Nil
  then show ?case by (auto simp: adds_none intro!: exI [of _ "[]"])
next
  case (Cons op ops)
  from Cons.prems(1) obtain r conns1 s1 c1 s2 where
    route: "onSnd (route_and_process I am op lc conns) s = (Done (r, conns1), s1)"
    and settle: "settle I am op r c s1 = (Done (Ok c1), s2)"
    and rest: "drain I am lc ops conns1 c1 s2 = (Done (Ok (c', conns')), t)"
    unfolding drain.simps by (elim seqM_DoneE) (auto elim!: tryM_OkE)
  have one: "adds I s [] [] s1"
    by (rule adds_ldap [OF route _ _ Cons.prems(2)])
      (rule disk_ldap.keeps_route ldap_only.keeps_route)+
  then have q1: "w_quota (snd s1) = None" by (simp add: adds_def)
  have "plain_outcome r" using returnsD [OF returns_onSnd [OF route_plain] route] by simp
  from settle_adds [OF settle this q1]
  have two: "adds I s1 [outcome_event (op, r)] [outcome_request I (am_server am) (op, r)] s2"
    and c1: "c1 = count_outcome (op, r) c" by auto
  from two have "w_quota (snd s2) = None" by (simp add: adds_def)
  from Cons.IH [OF rest this] obtain outs where o: "map fst outs = ops" "handled I am lc conns1 (snd s2) outs (snd t)"
    "adds I s2 (map outcome_event outs) (map (outcome_request I (am_server am)) outs) t"
    "c' = fold count_outcome outs c1" by blast
  have "route_and_process I am op lc conns (snd s) = (Done (r, conns1), snd s1)"
    using route by (simp add: onSnd_Done_iff)
  moreover have "settle I am op r c (fst s1, snd s1) = (Done (Ok c1), (fst s2, snd s2))"
    using settle by simp
  ultimately have "handled I am lc conns (snd s) ((op, r) # outs) (snd t)"
    using o(2) handled.simps(2) by blast
  with adds_trans [OF adds_trans [OF one two] o(3)] o(1,4) c1
  show ?case by (intro exI [of _ "(op, r) # outs"]) simp
qed

section \<open>A pass\<close>

lemma poll_Done:
  assumes "poll_operations I sc limit w = (Done (Ok ops), w')"
  shows "\<exists>es. w_trace w' = w_trace w @ es \<and> posts es = []"
proof -
  have "keeps (sends (\<lambda>e. e = EHttp (poll_request sc limit))) (poll_operations I sc limit)"
    by (rule sends.keeps_server(2)) simp
  from keepsD [OF this assms] obtain es where "w_trace w' = w_trace w @ es"
    "list_all (\<lambda>e. e = EHttp (poll_request sc limit)) es" by (auto simp: sends_def)
  moreover from this(2) have "posts es = []"
    by (induction es) (auto simp: poll_request_def)
  ultimately show ?thesis by blast
qed

lemma ad_run_adds:
  assumes "ad_run_once I am s = (Done (Ok c), t)" "w_quota (snd s) = None"
  shows "\<exists>pw lc w1 ops w2 outs w3. resolve I (w_env (snd s)) (ad_bind_password (am_ad am)) = Ok pw
    \<and> ldap_connect I (ad_url (am_ad am)) (ad_bind_dn (am_ad am)) pw (ad_base_dn (am_ad am)) (am_verify_tls am)
         (ad_use_kerberos (am_ad am)) (ad_password_writeback (am_ad am)) (snd s) = (Done (Ok lc), w1)
    \<and> poll_operations I (am_server am) (am_batch am) w1 = (Done (Ok ops), w2)
    \<and> map fst outs = ops \<and> handled I am lc [] w2 outs w3
    \<and> (\<exists>lcs. unbind_all I lcs w3 = (Done (), snd t))
    \<and> adds I s (map outcome_event outs) (map (outcome_request I (am_server am)) outs) t
    \<and> c = fold count_outcome outs no_counts"
proof -
  let ?ad = "am_ad am"
  obtain pw s1 where res: "liftM (resolve I (w_env (snd s)) (ad_bind_password ?ad)) s = (Done (Ok pw), s1)"
    and rest: "tryM (onSnd (ldap_connect I (ad_url ?ad) (ad_bind_dn ?ad) pw (ad_base_dn ?ad)
                          (am_verify_tls am) (ad_use_kerberos ?ad) (ad_password_writeback ?ad))) (\<lambda>lc.
             tryM (onSnd (poll_operations I (am_server am) (am_batch am))) (\<lambda>ops.
               tryM (drain I am lc ops [] no_counts) (\<lambda>(c, conns).
                 seqM (onSnd (unbind_all I (lc # map snd conns))) (\<lambda>_. retM (Ok c))))) s1 = (Done (Ok c), t)"
    using assms(1) unfolding ad_run_once_def ad_pass_def Let_def by (rule tryM_OkE)
  from res have s1: "s1 = s" and pw: "resolve I (w_env (snd s)) (ad_bind_password ?ad) = Ok pw"
    by simp_all
  obtain lc s2 ops s3 cc s4 where
    conn: "onSnd (ldap_connect I (ad_url ?ad) (ad_bind_dn ?ad) pw (ad_base_dn ?ad)
        (am_verify_tls am) (ad_use_kerberos ?ad) (ad_password_writeback ?ad)) s = (Done (Ok lc), s2)"
    and poll: "onSnd (poll_operations I (am_server am) (am_batch am)) s2 = (Done (Ok ops), s3)"
    and dr: "drain I am lc ops [] no_counts s3 = (Done (Ok cc), s4)"
    and "(\<lambda>(c, conns). seqM (onSnd (unbind_all I (lc # map snd conns))) (\<lambda>_. retM (Ok c))) cc s4
      = (Done (Ok c :: (agent_error, sync_counters) result), t)"
    using rest unfolding s1 by (elim tryM_OkE) (rule that; assumption)
  moreover obtain c' conns where cc: "cc = (c', conns)" by (cases cc)
  ultimately have last: "seqM (onSnd (unbind_all I (lc # map snd conns))) (\<lambda>_. retM (Ok c')) s4
      = (Done (Ok c :: (agent_error, sync_counters) result), t)"
    by (simp del: unbind_all.simps)
  from last obtain u where unb: "onSnd (unbind_all I (lc # map snd conns)) s4 = (Done u, t)" and c: "c' = c"
    by (elim seqM_DoneE) simp
  have a1: "adds I s [] [] s2"
    by (rule adds_ldap [OF conn _ _ assms(2)])
      (rule disk_ldap.keeps_ldap(1) ldap_only.keeps_ldap(1))+
  then have q2: "w_quota (snd s2) = None" by (simp add: adds_def)
  have cn: "ldap_connect I (ad_url ?ad) (ad_bind_dn ?ad) pw (ad_base_dn ?ad) (am_verify_tls am)
      (ad_use_kerberos ?ad) (ad_password_writeback ?ad) (snd s) = (Done (Ok lc), snd s2)"
    using conn by (cases s, cases s2) (simp add: onSnd_Done)
  have p: "poll_operations I (am_server am) (am_batch am) (snd s2) = (Done (Ok ops), snd s3)"
    using poll by (cases s2, cases s3) (simp add: onSnd_Done)
  have a2: "adds I s2 [] [] s3"
    by (rule adds_calls [OF poll _ q2 poll_Done [OF p]]) (rule disk.keeps_server(2), simp)
  then have q3: "w_quota (snd s3) = None" by (simp add: adds_def)
  from drain_adds [OF dr [unfolded cc] q3] obtain outs where o: "map fst outs = ops"
    "handled I am lc [] (snd s3) outs (snd s4)"
    "adds I s3 (map outcome_event outs) (map (outcome_request I (am_server am)) outs) s4"
    "c' = fold count_outcome outs no_counts" by blast
  from o(3) have q4: "w_quota (snd s4) = None" by (simp add: adds_def)
  have a4: "adds I s4 [] [] t"
    by (rule adds_ldap [OF unb _ _ q4]) (rule disk_ldap.keeps_unbind_all ldap_only.keeps_unbind_all)+
  have "adds I s (map outcome_event outs) (map (outcome_request I (am_server am)) outs) t"
    using adds_trans [OF adds_trans [OF adds_trans [OF a1 a2] o(3)] a4] by simp
  moreover have "unbind_all I (lc # map snd conns) (snd s4) = (Done (), snd t)"
    using unb by (simp add: onSnd_Done_iff del: unbind_all.simps)
  ultimately show ?thesis using pw cn p o(1,2,4) c by blast
qed

definition counted :: "(operation \<times> (agent_error, json) result \<Rightarrow> bool)
    \<Rightarrow> (operation \<times> (agent_error, json) result) list \<Rightarrow> nat" where
  "counted P outs = length (filter P outs)"

text \<open>An operation of the given kinds that was carried out, and one that failed.\<close>

definition carried_out :: "string set \<Rightarrow> operation \<times> (agent_error, json) result \<Rightarrow> bool" where
  "carried_out kinds out \<longleftrightarrow> is_ok (snd out) \<and> op_type (fst out) \<in> kinds"

definition failed :: "operation \<times> (agent_error, json) result \<Rightarrow> bool" where
  "failed out \<longleftrightarrow> \<not> is_ok (snd out)"

lemma fold_counts:
  "fold count_outcome outs c =
     \<lparr>c_inspected = c_inspected c + of_nat (length outs),
      c_created = c_created c + of_nat (counted (carried_out {''CREATE_ACCOUNT''}) outs),
      c_updated = c_updated c + of_nat (counted (carried_out {''UPDATE_ATTRIBUTES'', ''ENABLE_ACCOUNT''}) outs),
      c_disabled = c_disabled c + of_nat (counted (carried_out {''DISABLE_ACCOUNT''}) outs),
      c_failed = c_failed c + of_nat (counted failed outs)\<rparr>"
proof (induction outs arbitrary: c)
  case (Cons out outs)
  obtain op r where out: "out = (op, r)" by (cases out)
  show ?case
    by (cases r) (simp_all add: Cons out counted_def carried_out_def failed_def record_ok_def
        record_failure_def Let_def)
qed (simp add: counted_def)

text \<open>
  C1. A pass that completes accounts for its batch. It binds with the resolved password and then
  polls; each polled operation is routed and processed once, in order, and for each of them, in that
  order, the broker gets exactly one completion (and no other POST is made) and the log exactly one
  record, both of the outcome that processing it had; the counters say how many operations there
  were, how many were carried out of each kind and how many failed.
\<close>

theorem pass_accounts_for_batch:
  assumes "ad_run_once I am (al, w) = (Done (Ok c), (al', w'))" "w_quota w = None" "log_holds I al w rs"
  shows "\<exists>pw lc w1 ops w2 outs w3 ss es. resolve I (w_env w) (ad_bind_password (am_ad am)) = Ok pw
    \<and> ldap_connect I (ad_url (am_ad am)) (ad_bind_dn (am_ad am)) pw (ad_base_dn (am_ad am)) (am_verify_tls am)
         (ad_use_kerberos (am_ad am)) (ad_password_writeback (am_ad am)) w = (Done (Ok lc), w1)
    \<and> poll_operations I (am_server am) (am_batch am) w1 = (Done (Ok ops), w2)
    \<and> map fst outs = ops \<and> handled I am lc [] w2 outs w3
    \<and> log_holds I al' w' (rs @ ss) \<and> map (\<lambda>r. (ar_event r, ar_detail r)) ss = map outcome_event outs
    \<and> w_trace w' = w_trace w @ es \<and> posts es = map (outcome_request I (am_server am)) outs
    \<and> c = \<lparr>c_inspected = of_nat (length ops),
           c_created = of_nat (counted (carried_out {''CREATE_ACCOUNT''}) outs),
           c_updated = of_nat (counted (carried_out {''UPDATE_ATTRIBUTES'', ''ENABLE_ACCOUNT''}) outs),
           c_disabled = of_nat (counted (carried_out {''DISABLE_ACCOUNT''}) outs),
           c_failed = of_nat (counted failed outs)\<rparr>"
proof -
  have "w_quota (snd (al, w)) = None" using assms(2) by simp
  from ad_run_adds [OF assms(1) this, unfolded snd_conv] obtain pw lc w1 ops w2 outs w3 where
    b: "resolve I (w_env w) (ad_bind_password (am_ad am)) = Ok pw"
    "ldap_connect I (ad_url (am_ad am)) (ad_bind_dn (am_ad am)) pw (ad_base_dn (am_ad am)) (am_verify_tls am)
       (ad_use_kerberos (am_ad am)) (ad_password_writeback (am_ad am)) w = (Done (Ok lc), w1)"
    "handled I am lc [] w2 outs w3"
    and o: "poll_operations I (am_server am) (am_batch am) w1 = (Done (Ok ops), w2)" "map fst outs = ops"
    "adds I (al, w) (map outcome_event outs) (map (outcome_request I (am_server am)) outs) (al', w')"
    and c: "c = fold count_outcome outs no_counts" by blast
  from o(3) assms(3) obtain es ss where
    "w_trace w' = w_trace w @ es" "posts es = map (outcome_request I (am_server am)) outs"
    "log_holds I al' w' (rs @ ss)" "map (\<lambda>r. (ar_event r, ar_detail r)) ss = map outcome_event outs"
    by (auto simp: adds_def)
  moreover have "length outs = length ops" using o(2) by (metis length_map)
  ultimately show ?thesis
    using b o(1,2) unfolding c fold_counts no_counts_def by (intro exI conjI) (assumption | simp)+
qed

lemma ad_pass_completes:
  assumes "ready (al, w)" "resolve I (w_env w) (ad_bind_password (am_ad am)) = Ok pw"
    and "ldap_connect I (ad_url (am_ad am)) (ad_bind_dn (am_ad am)) pw (ad_base_dn (am_ad am))
      (am_verify_tls am) (ad_use_kerberos (am_ad am)) (ad_password_writeback (am_ad am)) w
      = (Done (Ok lc), w1)"
    and "poll_operations I (am_server am) (am_batch am) w1 = (Done (Ok ops), w2)"
  shows "\<exists>c s. ad_run_once I am (al, w) = (Done (Ok c), s) \<and> ready s"
proof -
  have k: "disk_kept w w1" "disk_kept w1 w2"
    using keepsD [OF disk_ldap.keeps_ldap(1) assms(3)] keepsD [OF disk.keeps_server(2) assms(4)] by auto
  have c1: "calm_world w1"
    using finishesD [OF finishes_ldap(1) _ assms(3)] assms(1) by (simp add: ready_def)
  have c2: "calm_world w2"
    using finishesD [OF finishes_server(2) c1 assms(4)] by simp
  have "ready (al, w2)" using assms(1) k c2 by (simp add: ready_def writable_def disk_kept_def)
  with finishes_drain obtain r s3 where d0: "drain I am lc ops [] no_counts (al, w2) = (Done r, s3)"
    "is_ok r" and r3: "ready s3" by (rule finishesE)
  then obtain cc where d: "drain I am lc ops [] no_counts (al, w2) = (Done (Ok cc), s3)"
    by (cases r) auto
  obtain c conns where cc: "cc = (c, conns)" by (cases cc)
  have "finishes ready any_value (onSnd (unbind_all I (lc # map snd conns)))"
    by (intro finishes_onSnd finishes_unbind_all disk_ldap.keeps_unbind_all)
  then obtain u s4 where u: "onSnd (unbind_all I (lc # map snd conns)) s3 = (Done u, s4)" "ready s4"
    using r3 by (rule finishesE)
  have "onSnd (ldap_connect I (ad_url (am_ad am)) (ad_bind_dn (am_ad am)) pw (ad_base_dn (am_ad am))
      (am_verify_tls am) (ad_use_kerberos (am_ad am)) (ad_password_writeback (am_ad am))) (al, w)
      = (Done (Ok lc), (al, w1))"
    using assms(3) by (simp add: onSnd_Done)
  moreover have "onSnd (poll_operations I (am_server am) (am_batch am)) (al, w1) = (Done (Ok ops), (al, w2))"
    using assms(4) by (simp add: onSnd_Done)
  ultimately have "ad_run_once I am (al, w) = (Done (Ok c), s4)"
    using assms(2) d u(1) by (simp add: ad_run_once_def ad_pass_def Let_def cc retM_def del: unbind_all.simps)
  with u(2) show ?thesis by blast
qed

text \<open>
  C23. No operation stops a pass: when nothing interrupts it and the log can be written, a pass
  whose bind password resolves, whose directory connection is made and whose poll is answered
  runs to its end and returns its counters, whatever happens to the single operations.
\<close>

theorem pass_completes:
  assumes "ready (al, w)" "resolve I (w_env w) (ad_bind_password (am_ad am)) = Ok pw"
    and "ldap_connect I (ad_url (am_ad am)) (ad_bind_dn (am_ad am)) pw (ad_base_dn (am_ad am))
      (am_verify_tls am) (ad_use_kerberos (am_ad am)) (ad_password_writeback (am_ad am)) w
      = (Done (Ok lc), w1)"
    and "poll_operations I (am_server am) (am_batch am) w1 = (Done (Ok ops), w2)"
  shows "\<exists>c s. ad_run_once I am (al, w) = (Done (Ok c), s) \<and> ready s"
  using assms by (rule ad_pass_completes)

section \<open>A pass for the witnesses\<close>

definition noop :: operation where
  "noop = \<lparr>op_id = ''7'', op_type = ''NOOP'', op_user_id = ''u1'', op_user_email = None,
     op_attributes_json = None, op_encrypted_password = None, op_directory_integration_id = None,
     op_target_base_dn = None, op_forest_context_json = None\<rparr>"

definition noop_tree :: json where
  "noop_tree = JObj [(''operations'',
     JArr [JObj [(''id'', JStr ''7''), (''opType'', JStr ''NOOP''), (''userId'', JStr ''u1'')]])]"

definition answer :: "http_req \<Rightarrow> http_resp" where
  "answer r = \<lparr>rs_status = 200, rs_body = Ok (if rq_method r = GET then show_tree noop_tree else [])\<rparr>"

definition sample_broker_iface :: "sample_dir iface" where
  "sample_broker_iface = sample_dir_iface\<lparr>if_http := (\<lambda>c r x. (Ok (answer r), x))\<rparr>"

definition sample_client :: server_client where
  "sample_client = \<lparr>sc_http = \<lparr>hc_timeout_secs = 30, hc_accept_invalid_certs = False, hc_user_agent = []\<rparr>,
     sc_base_url = ''https://idp'', sc_agent_token = ''t'', sc_agent_id = ''dc-01''\<rparr>"

definition sample_mode :: ad_mode where
  "sample_mode = \<lparr>am_server = sample_client,
     am_ad = \<lparr>ad_url = ''ldaps://dc01'', ad_bind_dn = ''CN=svc'', ad_bind_password = ''pw'',
              ad_base_dn = ''DC=corp'', ad_use_kerberos = False, ad_password_writeback = True\<rparr>,
     am_cipher = sample_cipher, am_verify_tls = True, am_batch = 25\<rparr>"

lemma noop_read: "de_envelope noop_tree = Some [noop]"
  by (simp add: de_envelope_def noop_tree_def de_struct_def req_def de_vec_def de_operation_def opt_def
      de_string_def noop_def)

lemma send_or_calm:
  "w_stop w = None \<Longrightarrow> send_or I sc what r w =
     (Done (map_err (\<lambda>e. Server_err (what @ e)) (fst (if_http I (sc_http sc) r (w_ext w)))),
      w\<lparr>w_trace := w_trace w @ [EHttp r], w_ext := snd (if_http I (sc_http sc) r (w_ext w))\<rparr>)"
  unfolding send_or_def send_def by (rule request_calm)

lemma poll_calm:
  assumes "w_stop w = None" "if_http I (sc_http sc) (poll_request sc limit) (w_ext w) = (Ok resp, x)"
    and "is_success (rs_status resp)" "rs_body resp = Ok b" "if_json_of I b = Some j" "de_envelope j = Some ops"
  shows "poll_operations I sc limit w
    = (Done (Ok ops), w\<lparr>w_trace := w_trace w @ [EHttp (poll_request sc limit)], w_ext := x\<rparr>)"
  using assms
  by (simp add: poll_operations_def send_or_calm json_body_def pause_calm from_json_str_def liftM_def retM_def)

lemma sample_poll:
  assumes "w_stop w = None"
  shows "\<exists>w'. poll_operations sample_broker_iface sample_client limit w = (Done (Ok [noop]), w')"
proof -
  have "if_http sample_broker_iface (sc_http sample_client) (poll_request sample_client limit) (w_ext w)
      = (Ok (answer (poll_request sample_client limit)), w_ext w)"
    by (simp add: sample_broker_iface_def)
  moreover have "rs_body (answer (poll_request sample_client limit)) = Ok (show_tree noop_tree)"
    "is_success (rs_status (answer (poll_request sample_client limit)))"
    by (simp_all add: answer_def poll_request_def is_success_def)
  moreover have "if_json_of sample_broker_iface (show_tree noop_tree) = Some noop_tree"
    by (simp add: sample_broker_iface_def sample_dir_iface_def base_iface_def parse_show)
  ultimately show ?thesis using poll_calm [OF assms _ _ _ _ noop_read] by blast
qed

lemma sample_connect:
  assumes "w_stop w = None"
  shows "\<exists>w'. ldap_connect sample_broker_iface url bd pw base v False pwb w
      = (Done (Ok \<lparr>lc_ldap = 1, lc_base_dn = base, lc_password_writeback = pwb\<rparr>), w') \<and> w_stop w' = None"
  using assms
  by (simp add: ldap_connect_def ldap_open_def simple_bind_def request_calm sample_broker_iface_def
      sample_dir_iface_def ldap_err_def checked_def success_def rc_def retM_def)

lemma sample_start: "ready (fresh_log ''log'', world_on [])"
  by (simp add: ready_def writable_def world_on_def)

lemma sample_bind_password:
  "resolve sample_broker_iface (w_env (world_on [])) (ad_bind_password (am_ad sample_mode)) = Ok ''pw''"
proof -
  have p: "ad_bind_password (am_ad sample_mode) = ''pw''" by (simp add: sample_mode_def)
  show ?thesis unfolding p by (rule resolve_inline) (simp_all add: starts_with_def)
qed

lemma sample_pass_steps:
  "\<exists>lc w1 w2. ldap_connect sample_broker_iface (ad_url (am_ad sample_mode)) (ad_bind_dn (am_ad sample_mode)) ''pw''
      (ad_base_dn (am_ad sample_mode)) (am_verify_tls sample_mode) (ad_use_kerberos (am_ad sample_mode))
      (ad_password_writeback (am_ad sample_mode)) (world_on []) = (Done (Ok lc), w1)
    \<and> poll_operations sample_broker_iface (am_server sample_mode) (am_batch sample_mode) w1
      = (Done (Ok [noop]), w2)"
  using sample_connect [of "world_on []"] sample_poll
  by (fastforce simp: sample_mode_def world_on_def)

theorem pass_completes_witness:
  "\<exists>c s. ad_run_once sample_broker_iface sample_mode (fresh_log ''log'', world_on []) = (Done (Ok c), s)
     \<and> ready s"
  using pass_completes [OF sample_start sample_bind_password] sample_pass_steps by blast

theorem pass_accounts_for_batch_witness:
  "\<exists>c al' w' lc ops outs w1 w2 w3 ss.
     ad_run_once sample_broker_iface sample_mode (fresh_log ''log'', world_on []) = (Done (Ok c), (al', w'))
     \<and> poll_operations sample_broker_iface sample_client 25 w1 = (Done (Ok ops), w2)
     \<and> map fst outs = ops \<and> handled sample_broker_iface sample_mode lc [] w2 outs w3
     \<and> log_holds sample_broker_iface al' w' ss
     \<and> map (\<lambda>r. (ar_event r, ar_detail r)) ss = map outcome_event outs
     \<and> c_inspected c = of_nat (length ops)"
proof -
  obtain c al' w' where run:
    "ad_run_once sample_broker_iface sample_mode (fresh_log ''log'', world_on []) = (Done (Ok c), (al', w'))"
    using ad_pass_completes [OF sample_start sample_bind_password] sample_pass_steps
    by (metis surj_pair)
  have quota: "w_quota (world_on ([] :: sample_dir)) = None" by (simp add: world_on_def)
  have holds: "log_holds sample_broker_iface (fresh_log ''log'') (world_on []) []"
    by (simp add: log_holds_def fresh_log_def world_on_def)
  have am: "am_server sample_mode = sample_client" "am_batch sample_mode = 25"
    by (simp_all add: sample_mode_def)
  from pass_accounts_for_batch [OF run quota holds] obtain lc ops outs w1 w2 w3 ss where
    "poll_operations sample_broker_iface sample_client 25 w1 = (Done (Ok ops), w2)"
    "map fst outs = ops" "handled sample_broker_iface sample_mode lc [] w2 outs w3" "log_holds sample_broker_iface al' w' ss"
    "map (\<lambda>r. (ar_event r, ar_detail r)) ss = map outcome_event outs"
    "c_inspected c = of_nat (length ops)"
    unfolding am by force
  with run show ?thesis by blast
qed

section \<open>Counters\<close>

lemma counted_parts:
  "counted (carried_out {''CREATE_ACCOUNT''}) outs
     + counted (carried_out {''UPDATE_ATTRIBUTES'', ''ENABLE_ACCOUNT''}) outs
     + counted (carried_out {''DISABLE_ACCOUNT''}) outs + counted failed outs \<le> length outs"
  by (induction outs) (auto simp: counted_def carried_out_def failed_def)

text \<open>
  C34. The counters of a completed pass fit its batch: no operation is counted under two outcomes,
  and, for a batch of fewer than \<open>2 ^ 64\<close> operations, none of the counters wraps around.
\<close>

theorem counters_within_batch:
  assumes "ad_run_once I am s = (Done (Ok c), t)" "w_quota (snd s) = None"
  shows "\<exists>ops w1 w2. poll_operations I (am_server am) (am_batch am) w1 = (Done (Ok ops), w2)
    \<and> (length ops < 2 ^ 64 \<longrightarrow> unat (c_inspected c) = length ops
         \<and> unat (c_created c) + unat (c_updated c) + unat (c_disabled c) + unat (c_failed c) \<le> length ops)"
proof -
  from ad_run_adds [OF assms] obtain ops outs w1 w2 where
    o: "poll_operations I (am_server am) (am_batch am) w1 = (Done (Ok ops), w2)" "map fst outs = ops"
    and c: "c = fold count_outcome outs no_counts" by blast
  have len: "length outs = length ops" using o(2) by (metis length_map)
  have small: "unat (of_nat n :: u64) \<le> n" for n by (simp add: unat_of_nat)
  have "unat (c_created c) + unat (c_updated c) + unat (c_disabled c) + unat (c_failed c) \<le> length ops"
    using counted_parts [of outs] small unfolding c fold_counts no_counts_def len [symmetric]
    by simp (meson add_mono order_trans)
  moreover have "unat (c_inspected c) = length ops" if "length ops < 2 ^ 64"
    using that unfolding c fold_counts no_counts_def by (simp add: len unat_of_nat)
  ultimately show ?thesis using o(1) by blast
qed

lemma sample_poll_only:
  assumes "poll_operations sample_broker_iface sample_client limit w = (Done (Ok ops), w')"
  shows "ops = [noop]"
proof -
  from assms obtain resp w1 where
    s: "send_or sample_broker_iface sample_client ''poll: '' (poll_request sample_client limit) w = (Done (Ok resp), w1)"
    and rest: "(if \<not> is_success (rs_status resp) then retM (Err (http_error sample_broker_iface ''poll returned HTTP '' resp))
       else json_body sample_broker_iface ''OperationsEnvelope'' de_envelope ''poll decode: '' resp) w1
         = (Done (Ok ops), w')"
    unfolding poll_operations_def by (rule tryM_OkE)
  have "resp = answer (poll_request sample_client limit)"
    using s unfolding send_or_def send_def by (rule request_Done) (simp add: sample_broker_iface_def)
  then have "is_success (rs_status resp)" "rs_body resp = Ok (show_tree noop_tree)"
    by (simp_all add: answer_def is_success_def poll_request_def)
  with rest show ?thesis
    by (auto simp: json_body_def liftM_def retM_apply from_json_str_def noop_read sample_broker_iface_def
        sample_dir_iface_def base_iface_def parse_show elim!: seqM_DoneE)
qed

theorem counters_within_batch_witness:
  "\<exists>c s. ad_run_once sample_broker_iface sample_mode (fresh_log ''log'', world_on []) = (Done (Ok c), s)
     \<and> unat (c_inspected c) = 1 \<and> unat (c_created c) + unat (c_failed c) \<le> 1"
proof -
  obtain c s where run: "ad_run_once sample_broker_iface sample_mode (fresh_log ''log'', world_on []) = (Done (Ok c), s)"
    using ad_pass_completes [OF sample_start sample_bind_password] sample_pass_steps by metis
  have "w_quota (snd (fresh_log ''log'', world_on ([] :: sample_dir))) = None" by (simp add: world_on_def)
  from counters_within_batch [OF run this] obtain ops w1 w2 where
    p: "poll_operations sample_broker_iface (am_server sample_mode) (am_batch sample_mode) w1 = (Done (Ok ops), w2)"
    and c: "length ops < 2 ^ 64 \<longrightarrow> unat (c_inspected c) = length ops
      \<and> unat (c_created c) + unat (c_updated c) + unat (c_disabled c) + unat (c_failed c) \<le> length ops" by blast
  have "am_server sample_mode = sample_client" by (simp add: sample_mode_def)
  with p sample_poll_only have "ops = [noop]" by metis
  with c run show ?thesis by auto
qed

section \<open>Connections to forests\<close>





end
