(* ===== verification/Db_Mode.thy ===== *)
theory Db_Mode
  imports Db_Connector Ad_Thms
begin

text \<open>
  \<open>src/modes/db.rs\<close>: one synchronisation pass between a table and the broker. A failed push or
  writeback is counted and recorded; a failed connection, read, change-feed request or log write
  ends the pass.
\<close>

record db_mode =
  dm_server :: server_client
  dm_db :: db_section

definition push_fail :: "agent_error \<Rightarrow> json" where
  "push_fail e = json_obj [(''error'', JStr (error_str e))]"

definition pull_event :: "db_section \<Rightarrow> nat \<Rightarrow> json" where
  "pull_event db n = json_obj [(''table'', JStr (db_table db)), (''rows'', json_u64 (of_nat n))]"

definition writeback_fail :: "writeback_change \<Rightarrow> agent_error \<Rightarrow> json" where
  "writeback_fail ch e = json_obj [(''key'', JStr (wc_key ch)), (''error'', JStr (error_str e))]"

definition writeback_event :: "db_section \<Rightarrow> nat \<Rightarrow> json" where
  "writeback_event db n = json_obj [(''table'', JStr (db_table db)), (''applied'', json_u64 (of_nat n))]"

definition count_inspected :: "sync_counters \<Rightarrow> sync_counters" where
  "count_inspected c = c\<lparr>c_inspected := c_inspected c + 1\<rparr>"

definition count_updated :: "sync_counters \<Rightarrow> sync_counters" where
  "count_updated c = c\<lparr>c_updated := c_updated c + 1\<rparr>"

definition count_failed :: "sync_counters \<Rightarrow> sync_counters" where
  "count_failed c = c\<lparr>c_failed := c_failed c + 1\<rparr>"

fun push_all :: "'x iface \<Rightarrow> db_mode \<Rightarrow> string \<Rightarrow> json list \<Rightarrow> sync_counters
    \<Rightarrow> ('x, (agent_error, sync_counters) result) pass" where
  "push_all I dm secret [] c = retM (Ok c)"
| "push_all I dm secret (rec # recs) c =
     seqM (onSnd (push_record I (dm_server dm) (db_push_path (dm_db dm)) secret rec)) (\<lambda>r. case r of
         Ok _ \<Rightarrow> push_all I dm secret recs (count_updated (count_inspected c))
       | Err e \<Rightarrow> tryM (audit_append I ''DB_PUSH_FAIL'' (push_fail e)) (\<lambda>_.
                    push_all I dm secret recs (count_failed (count_inspected c))))"

fun apply_all :: "'x iface \<Rightarrow> db_connector \<Rightarrow> writeback_change list \<Rightarrow> sync_counters
    \<Rightarrow> ('x, (agent_error, sync_counters) result) pass" where
  "apply_all I dc [] c = retM (Ok c)"
| "apply_all I dc (ch # chs) c =
     seqM (onSnd (apply_writeback I dc (wc_key ch) (wc_fields ch))) (\<lambda>r. case r of
         Ok n \<Rightarrow> apply_all I dc chs
                  (if 0 < n then count_updated (count_inspected c) else count_inspected c)
       | Err e \<Rightarrow> tryM (audit_append I ''DB_WRITEBACK_FAIL'' (writeback_fail ch e)) (\<lambda>_.
                    apply_all I dc chs (count_failed (count_inspected c))))"

definition outbound :: "'x iface \<Rightarrow> db_mode \<Rightarrow> db_connector \<Rightarrow> string
    \<Rightarrow> ('x, (agent_error, sync_counters) result) pass" where
  "outbound I dm dc secret =
     tryM (onSnd (pull_records I dc)) (\<lambda>records.
       tryM (push_all I dm secret records no_counts) (\<lambda>c.
         tryM (audit_append I ''DB_PULL'' (pull_event (dm_db dm) (length records))) (\<lambda>_.
           retM (Ok c))))"

definition inbound :: "'x iface \<Rightarrow> db_mode \<Rightarrow> db_connector \<Rightarrow> string \<Rightarrow> sync_counters
    \<Rightarrow> ('x, (agent_error, sync_counters) result) pass" where
  "inbound I dm dc secret c =
     (case (db_writeback (dm_db dm), db_writeback_pull_path (dm_db dm)) of
        (True, Some path) \<Rightarrow>
          tryM (onSnd (pull_writeback I (dm_server dm) path secret)) (\<lambda>changes.
            tryM (apply_all I dc changes c) (\<lambda>c.
              if changes \<noteq> []
              then tryM (audit_append I ''DB_WRITEBACK'' (writeback_event (dm_db dm) (length changes)))
                     (\<lambda>_. retM (Ok c))
              else retM (Ok c)))
      | _ \<Rightarrow> retM (Ok c))"

definition db_pass :: "'x iface \<Rightarrow> db_mode \<Rightarrow> (string \<rightharpoonup> string)
    \<Rightarrow> ('x, (agent_error, sync_counters) result) pass" where
  "db_pass I dm env =
     (let db = dm_db dm
      in tryM (liftM (resolve I env (db_url db))) (\<lambda>url.
           tryM (liftM (resolve I env (db_push_secret db))) (\<lambda>secret.
             tryM (onSnd (db_connect I url (db_driver db) (db_table db) (db_key_column db) (db_fields db)))
               (\<lambda>dc. tryM (outbound I dm dc secret) (\<lambda>c. inbound I dm dc secret c)))))"

definition db_run_once :: "'x iface \<Rightarrow> db_mode \<Rightarrow> ('x, (agent_error, sync_counters) result) pass" where
  "db_run_once I dm s = db_pass I dm (w_env (snd s)) s"

section \<open>The log\<close>

lemma plain_db_events:
  "plain_detail (push_fail e)" "plain_detail (pull_event db n)" "plain_detail (writeback_fail ch e)"
  "plain_detail (writeback_event db n)"
  unfolding push_fail_def pull_event_def writeback_fail_def writeback_event_def
  by (auto intro!: plain_detail_obj)

context pass_frame
begin

lemma keeps_push_all:
  assumes "dm_server dm = sc"
  shows "keeps Q (push_all I dm secret recs c)"
  by (induction recs arbitrary: c)
    (auto simp: assms intro!: keeps_seqM keeps_tryM keeps_retM keeps_pass_calls append_pair
      keeps_pass_server plain_db_events split: result.split)

lemma keeps_apply_all: "keeps Q (apply_all I dc chs c)"
  by (induction chs arbitrary: c)
    (auto intro!: keeps_seqM keeps_tryM keeps_retM keeps_pass_calls append_pair
      sql.keeps_sql plain_db_events split: result.split)

lemma keeps_db:
  assumes "dm_server dm = sc"
  shows "keeps Q (db_run_once I dm)"
proof -
  have "keeps Q (outbound I dm dc secret)" for dc secret
    unfolding outbound_def
    by (intro keeps_tryM keeps_retM keeps_pass_calls append_pair keeps_push_all assms
        sql.keeps_sql plain_db_events)
  moreover have "keeps Q (inbound I dm dc secret c)" for dc secret c
    unfolding inbound_def assms
    by (auto intro!: keeps_tryM keeps_retM keeps_pass_calls append_pair keeps_apply_all
        keeps_pass_server plain_db_events split: bool.split option.split)
  ultimately have "keeps Q (db_pass I dm env)" for env
    unfolding db_pass_def Let_def
    by (intro keeps_tryM keeps_liftM keeps_pass_calls sql.keeps_sql)
  then show ?thesis by (simp add: keeps_def db_run_once_def)
qed

end

lemma panic_free_push_all [panic_rules]: "panic_free (push_all I dm secret recs c)"
  by (induction recs arbitrary: c) (auto intro!: panic_rules split: result.split)

lemma panic_free_apply_all [panic_rules]: "panic_free (apply_all I dc chs c)"
  by (induction chs arbitrary: c) (auto intro!: panic_rules split: result.split)

lemma panic_free_db [panic_rules]: "panic_free (db_run_once I dm)"
proof -
  have "panic_free (db_pass I dm env)" for env
    unfolding db_pass_def outbound_def inbound_def Let_def
    by (auto intro!: panic_rules split: bool.split option.split)
  then show ?thesis by (simp add: panic_free_def db_run_once_def)
qed

section \<open>The specification of a pass\<close>























section \<open>A pass for the witness\<close>

definition sample_row :: db_row where
  "sample_row = \<lparr>row_columns = [''name''], row_text = (\<lambda>c. None), row_i64 = (\<lambda>c. Some (Some (- 1))),
     row_f64 = (\<lambda>c. None), row_bool = (\<lambda>c. None)\<rparr>"

definition sample_db_iface :: "sample_dir iface" where
  "sample_db_iface = base_iface\<lparr>if_db_connect := (\<lambda>u x. (Ok 1, x)),
     if_db_fetch := (\<lambda>p q x. (Ok [sample_row], x))\<rparr>"




lemma sample_db_push:
  "w_stop w = None \<Longrightarrow> \<exists>w'. push_record sample_db_iface sample_client path secret rec w
     = (Done (Err (Server_err ''push: unreachable'')), w')"
  by (simp add: push_record_def send_or_calm sample_db_iface_def base_iface_def)



end
