(* ===== verification/Runner.thy ===== *)
theory Runner
  imports Db_Mode
begin

text \<open>
  \<open>src/runner.rs\<close>: the service loop. \<open>serve\<close> is the loop of \<open>run\<close>: it need not end, so it is a
  partial function, and not returning is \<open>None\<close>. The shutdown branch of \<open>select!\<close> is polled
  first: it ends the loop at its head when the signal is there, and otherwise the work is dropped
  at the await point it has reached (the \<open>Dropped\<close> of \<open>await\<close>).
\<close>

definition BATCH :: "32 word" where
  "BATCH = 25"

text \<open>The local variables of \<open>run\<close>.\<close>

record runtime =
  rt_config :: config
  rt_server :: server_client
  rt_cipher :: cipher
  rt_hostname :: string
  rt_directory_id :: "string option"

definition directory_id_from :: "(string \<rightharpoonup> string) \<Rightarrow> string option" where
  "directory_id_from env = nonempty (env_var env ''NEXUS_AGENT_DIRECTORY_ID'')"

definition directory_id :: "(string \<rightharpoonup> string) \<Rightarrow> config \<Rightarrow> string option" where
  "directory_id env c =
     (case cf_ad c of
        None \<Rightarrow> None
      | Some _ \<Rightarrow> (case nonempty (ag_directory_integration_id (cf_agent c)) of
                    Some i \<Rightarrow> Some i | None \<Rightarrow> directory_id_from env))"

section \<open>One cycle\<close>

definition run_db :: "'x iface \<Rightarrow> config \<Rightarrow> server_client \<Rightarrow> ('x, (agent_error, sync_counters) result) pass" where
  "run_db I c server =
     (if if_db_feature I
      then (case cf_db c of
              None \<Rightarrow> panicM ''validated''
            | Some db \<Rightarrow> db_run_once I \<lparr>dm_server = server, dm_db = db\<rparr>)
      else retM (Err (Config_err ''mode=db requires the agent to be built with the `db` feature'')))"

definition run_pass :: "'x iface \<Rightarrow> config \<Rightarrow> server_client \<Rightarrow> cipher
    \<Rightarrow> ('x, (agent_error, sync_counters) result) pass" where
  "run_pass I c server ci =
     tryM (case ag_mode (cf_agent c) of
             Ad \<Rightarrow> (case cf_ad c of
                     None \<Rightarrow> panicM ''validated''
                   | Some ad \<Rightarrow> ad_run_once I \<lparr>am_server = server, am_ad = ad, am_cipher = ci,
                       am_verify_tls = sv_verify_tls (cf_server c), am_batch = BATCH\<rparr>)
           | Db \<Rightarrow> run_db I c server) (\<lambda>counters.
       tryM (summary I (mode_as_str (ag_mode (cf_agent c))) counters) (\<lambda>_. retM (Ok counters)))"

text \<open>What follows a pass: the report of a pass that did something, or the record of its error.\<close>

definition after_pass :: "'x iface \<Rightarrow> config \<Rightarrow> server_client \<Rightarrow> (agent_error, sync_counters) result
    \<Rightarrow> ('x, unit) pass" where
  "after_pass I c server r =
     (case r of
        Ok counters \<Rightarrow>
          if 0 < c_inspected counters
          then onSnd (report_run I server (mode_as_str (ag_mode (cf_agent c))) counters)
          else retM ()
      | Err e \<Rightarrow> seqM (audit_append I ''RUN_ERROR'' (json_obj [(''error'', JStr (error_str e))]))
                   (\<lambda>_. retM ()))"

definition sleep :: "u64 \<Rightarrow> ('x world, unit) act" where
  "sleep secs = await (ESleep secs) (\<lambda>x. ((), x))"

definition run_cycle :: "'x iface \<Rightarrow> config \<Rightarrow> runtime \<Rightarrow> ('x, unit) pass" where
  "run_cycle I c rt =
     seqM (onSnd (heartbeat I (rt_server rt) (mode_as_str (ag_mode (cf_agent c))) (rt_hostname rt) VERSION
                    (rt_directory_id rt))) (\<lambda>_.
       seqM (run_pass I c (rt_server rt) (rt_cipher rt)) (\<lambda>r.
         seqM (after_pass I c (rt_server rt) r) (\<lambda>_.
           onSnd (sleep (ag_poll_interval_secs (cf_agent c))))))"

text \<open>The configuration of a cycle: the local one with the broker's settings, if they can be had.\<close>

definition effective :: "config \<Rightarrow> (agent_error, remote_config) result \<Rightarrow> config" where
  "effective base r = (case r of Ok remote \<Rightarrow> apply_remote remote base | Err _ \<Rightarrow> base)"

definition run_one :: "'x iface \<Rightarrow> runtime \<Rightarrow> ('x, unit) pass" where
  "run_one I rt =
     seqM (onSnd (fetch_config I (rt_server rt))) (\<lambda>r. run_cycle I (effective (rt_config rt) r) rt)"

section \<open>The service\<close>

text \<open>The signal has been received and no call is in progress.\<close>

definition shutdown_seen :: "'x world \<Rightarrow> bool" where
  "shutdown_seen w \<longleftrightarrow> w_stop w = Some 0 \<and> \<not> w_late w"

partial_function (option) serve :: "'x iface \<Rightarrow> runtime \<Rightarrow> audit_log \<times> 'x world
    \<Rightarrow> (unit exec \<times> (audit_log \<times> 'x world)) option" where
  "serve I rt s =
     (if shutdown_seen (snd s) then Some (Done (), s)
      else (let r = run_one I rt s
            in case fst r of
                 Done _ \<Rightarrow> serve I rt (snd r)
               | Panicked p \<Rightarrow> Some (Panicked p, snd r)
               | Dropped \<Rightarrow> Some (Done (), snd r)))"

text \<open>
  What \<open>run\<close> does before the loop, and after it: the signal has been consumed, so that nothing cuts
  off the goodbye to the broker.
\<close>

definition prepare :: "'x iface \<Rightarrow> string \<Rightarrow> config \<Rightarrow> (string \<rightharpoonup> string) \<Rightarrow> (agent_error, runtime) result" where
  "prepare I hostname c env =
     bind_res (resolve I env (sv_agent_token (cf_server c))) (\<lambda>tok.
       bind_res (server_new I (sv_base_url (cf_server c)) tok (ag_id (cf_agent c)) (sv_verify_tls (cf_server c)))
         (\<lambda>server. bind_res (server_cipher I env c) (\<lambda>ci.
           Ok \<lparr>rt_config = c, rt_server = server, rt_cipher = ci, rt_hostname = hostname,
               rt_directory_id = directory_id env c\<rparr>)))"

definition signal_consumed :: "audit_log \<times> 'x world \<Rightarrow> audit_log \<times> 'x world" where
  "signal_consumed s = (fst s, (snd s)\<lparr>w_stop := None\<rparr>)"

definition say_goodbye :: "'x iface \<Rightarrow> runtime \<Rightarrow> ('x, (agent_error, unit) result) pass" where
  "say_goodbye I rt =
     seqM (onSnd (disconnect I (rt_server rt) ''agent shutdown'')) (\<lambda>_.
       seqM (audit_append I ''RUN_STOP''
               (json_obj [(''mode'', JStr (mode_as_str (ag_mode (cf_agent (rt_config rt)))))])) (\<lambda>_.
         retM (Ok ())))"

definition run :: "'x iface \<Rightarrow> string \<Rightarrow> config \<Rightarrow> 'x world
    \<Rightarrow> ((agent_error, unit) result exec \<times> 'x world) option" where
  "run I hostname c w =
     (case bind_res (audit_open I (ag_audit_log (cf_agent c)) w) (\<lambda>al.
             bind_res (prepare I hostname c (w_env w)) (\<lambda>rt. Ok (al, rt))) of
        Err e \<Rightarrow> Some (Done (Err e), w)
      | Ok (al, rt) \<Rightarrow>
          (case run_start I (mode_as_str (ag_mode (cf_agent c))) (al, w) of
             (Done (Ok _), s) \<Rightarrow>
               (case serve I rt s of
                  None \<Rightarrow> None
                | Some (Done _, t) \<Rightarrow>
                    (case say_goodbye I rt (signal_consumed t) of (r, u) \<Rightarrow> Some (r, snd u))
                | Some (Panicked p, t) \<Rightarrow> Some (Panicked p, snd t)
                | Some (Dropped, t) \<Rightarrow> Some (Dropped, snd t))
           | (Done (Err e), s) \<Rightarrow> Some (Done (Err e), snd s)
           | (Panicked p, s) \<Rightarrow> Some (Panicked p, snd s)
           | (Dropped, s) \<Rightarrow> Some (Dropped, snd s)))"

text \<open>
  The machine that a run leaves behind when it is not asked to stop but its process ends (at the
  moment \<open>w_stop\<close>), or when it has failed at its start.
\<close>

definition cut_run :: "'x iface \<Rightarrow> string \<Rightarrow> config \<Rightarrow> 'x world \<Rightarrow> 'x world option" where
  "cut_run I hostname c w =
     (case bind_res (audit_open I (ag_audit_log (cf_agent c)) w) (\<lambda>al.
             bind_res (prepare I hostname c (w_env w)) (\<lambda>rt. Ok (al, rt))) of
        Err e \<Rightarrow> Some w
      | Ok (al, rt) \<Rightarrow>
          (case run_start I (mode_as_str (ag_mode (cf_agent c))) (al, w) of
             (Done (Ok _), s) \<Rightarrow> map_option (\<lambda>(_, t). snd t) (serve I rt s)
           | (_, s) \<Rightarrow> Some (snd s)))"

end
