(* ===== verification/Runner_Thms.thy ===== *)
theory Runner_Thms
  imports Runner
begin

text \<open>
  What the service promises: its log stays a chain wherever it is stopped, it stops exactly when it
  is told to, and then says goodbye; it talks to its broker only; it never panics on a validated
  configuration. The first section proves of a cycle what every step of it keeps, the second that
  the shutdown's moment comes nearer with every cycle, the third lifts both to the loop.
\<close>

section \<open>The loop's rounds\<close>

text \<open>The induction principle of the loop's returning runs, by how a round ends.\<close>

lemma serve_rounds [consumes 1, case_names stop cycle panic drop]:
  assumes "serve I rt s = Some y"
    and stop: "\<And>s. shutdown_seen (snd s) \<Longrightarrow> P s (Done (), s)"
    and cycle: "\<And>s u y. \<not> shutdown_seen (snd s) \<Longrightarrow> run_one I rt s = (Done (), u) \<Longrightarrow> P u y \<Longrightarrow> P s y"
    and panic: "\<And>s p u. \<not> shutdown_seen (snd s) \<Longrightarrow> run_one I rt s = (Panicked p, u) \<Longrightarrow> P s (Panicked p, u)"
    and drop: "\<And>s u. \<not> shutdown_seen (snd s) \<Longrightarrow> run_one I rt s = (Dropped, u) \<Longrightarrow> P s (Done (), u)"
  shows "P s y"
proof -
  let ?P = "\<lambda>I' rt' s y. I' = I \<longrightarrow> rt' = rt \<longrightarrow> P s y"
  have "?P I rt s y"
  proof (rule serve.raw_induct [where P = ?P, OF _ assms(1)])
    fix serve I' rt' s y
    assume 1: "\<And>I' rt' s y. serve I' rt' s = Some y \<Longrightarrow> ?P I' rt' s y"
      "(if shutdown_seen (snd s) then Some (Done (), s)
        else (let r = run_one I' rt' s
              in case fst r of
                   Done _ \<Rightarrow> serve I' rt' (snd r)
                 | Panicked p \<Rightarrow> Some (Panicked p, snd r)
                 | Dropped \<Rightarrow> Some (Done (), snd r))) = Some y"
    obtain x u where one: "run_one I' rt' s = (x, u)" by (cases "run_one I' rt' s")
    show "?P I' rt' s y"
    proof (cases "shutdown_seen (snd s)")
      case True
      with 1(2) stop [of s] show ?thesis by auto
    next
      case False
      with 1 one have y: "case x of Done _ \<Rightarrow> serve I' rt' u = Some y
          | Panicked p \<Rightarrow> y = (Panicked p, u) | Dropped \<Rightarrow> y = (Done (), u)"
        by (cases x) simp_all
      show ?thesis
      proof (intro impI)
        assume "I' = I" "rt' = rt"
        with y one 1(1) False cycle [of s u y] panic [of s _ u] drop [of s u] show "P s y"
          by (cases x) simp_all
      qed
    qed
  qed
  then show ?thesis by blast
qed

section \<open>What a cycle keeps\<close>

lemma plain_run_events:
  "plain_detail (json_obj [(''mode'', JStr m)])" "plain_detail (json_obj [(''error'', JStr e)])"
  "plain_detail (json_obj [(''mode'', JStr m), (''counts'', counters_tree c)])"
proof -
  have "plain_value (counters_tree c) \<and> nesting (counters_tree c) \<le> 1"
    unfolding counters_tree_def
    using plain_json_obj nesting_json_obj [of "[(''inspected'', json_u64 (c_inspected c)),
     (''created'', json_u64 (c_created c)), (''updated'', json_u64 (c_updated c)),
     (''disabled'', json_u64 (c_disabled c)), (''failed'', json_u64 (c_failed c))]" 0] by auto
  then show "plain_detail (json_obj [(''mode'', JStr m), (''counts'', counters_tree c)])"
    by (intro plain_detail_obj) auto
qed (auto intro!: plain_detail_obj)

context pass_frame
begin

lemma keeps_sleep: "keeps R (sleep n)"
  unfolding sleep_def by (rule calls.keeps_await) (rule other_allowed, simp add: not_http_def)

lemma keeps_summary: "keeps Q (summary I m c)"
  unfolding summary_def by (intro keeps_tryM keeps_retM append_pair plain_run_events)

lemma keeps_run_pass: "keeps Q (run_pass I c sc ci)"
proof -
  have "keeps Q (run_db I c sc)"
    unfolding run_db_def by (auto intro: keeps_panicM keeps_retM keeps_db split: option.split)
  then show ?thesis
    unfolding run_pass_def
    by (intro keeps_tryM keeps_retM keeps_summary)
      (auto intro: keeps_panicM keeps_ad split: mode.split option.split)
qed

lemma keeps_after_pass: "keeps Q (after_pass I c sc r)"
  unfolding after_pass_def
  by (auto intro!: keeps_seqM keeps_retM keeps_pass_calls keeps_pass_server append_pair plain_run_events
      split: result.split)

lemma keeps_run_cycle:
  assumes "rt_server rt = sc"
  shows "keeps Q (run_cycle I c rt)"
  unfolding run_cycle_def assms
  by (intro keeps_seqM keeps_pass_calls keeps_pass_server keeps_run_pass keeps_after_pass keeps_sleep)

lemma keeps_run_one:
  assumes "rt_server rt = sc"
  shows "keeps Q (run_one I rt)"
  unfolding run_one_def assms
  by (intro keeps_seqM keeps_pass_calls keeps_pass_server keeps_run_cycle assms)

lemma keeps_serve:
  assumes "serve I rt s = Some y" "rt_server rt = sc"
  shows "Q s (snd y)"
  using assms(1)
proof (induction rule: serve_rounds)
  case (stop s)
  show ?case by (simp add: frame_refl)
next
  case (cycle s u y)
  from keepsD [OF keeps_run_one [OF assms(2)] cycle(2)] cycle(3) show ?case by (rule frame_trans)
next
  case (panic s p u)
  from keepsD [OF keeps_run_one [OF assms(2)] panic(2)] show ?case by simp
next
  case (drop s u)
  from keepsD [OF keeps_run_one [OF assms(2)] drop(2)] show ?case by simp
qed

lemma keeps_say_goodbye:
  assumes "rt_server rt = sc"
  shows "keeps Q (say_goodbye I rt)"
  unfolding say_goodbye_def assms
  by (intro keeps_seqM keeps_retM keeps_pass_calls keeps_pass_server append_pair plain_run_events)

lemma keeps_run_start: "keeps Q (run_start I m)"
  unfolding run_start_def by (intro keeps_tryM keeps_retM append_pair plain_run_events)

end

section \<open>The shutdown comes nearer with every round\<close>

text \<open>
  \<open>ticks m\<close>: when \<open>m\<close> returns, at least one await of it has completed, so that the shutdown is
  nearer than before (and has still not been ordered if it was not).
\<close>

definition ticks :: "('x world, 'a) act \<Rightarrow> bool" where
  "ticks m \<longleftrightarrow> (\<forall>w a w'. m w = (Done a, w') \<longrightarrow>
     (case w_stop w of None \<Rightarrow> w_stop w' = None | Some n \<Rightarrow> \<exists>k < n. w_stop w' = Some k))"

lemma ticks_await: "ticks (await e f)"
  by (auto simp: ticks_def await_def perform_def split: option.split nat.split prod.split if_splits)

lemma ticks_seqM:
  assumes "ticks m" "\<And>a. keeps counts_down (f a)"
  shows "ticks (seqM m f)"
  unfolding ticks_def
proof (intro allI impI)
  fix w b w'
  assume "seqM m f w = (Done b, w')"
  then obtain a u where m: "m w = (Done a, u)" and f: "f a u = (Done b, w')" by (rule seqM_DoneE)
  have "counts_down u w'" using keepsD [OF assms(2) f] .
  with m assms(1) show "case w_stop w of None \<Rightarrow> w_stop w' = None | Some n \<Rightarrow> \<exists>k < n. w_stop w' = Some k"
    unfolding ticks_def counts_down_def by (fastforce split: option.splits)
qed

lemma ticks_fetch_config: "ticks (fetch_config I sc)"
proof -
  have "ticks (send_or I sc what r)" for what r
    unfolding send_or_def send_def by (intro ticks_seqM ticks_await countdown.keeps_liftM)
  then show ?thesis
    unfolding fetch_config_def tryM_def json_body_def
    by (rule ticks_seqM)
      (auto intro!: countdown.keeps_retM countdown.keeps_seqM countdown.keeps_pause countdown.keeps_liftM
        split: result.split)
qed

lemma run_one_ticks:
  assumes "run_one I rt s = (Done (), t)"
  shows "case w_stop (snd s) of None \<Rightarrow> w_stop (snd t) = None | Some n \<Rightarrow> \<exists>k < n. w_stop (snd t) = Some k"
proof -
  from assms obtain r u where f: "onSnd (fetch_config I (rt_server rt)) s = (Done r, u)"
    and c: "run_cycle I (effective (rt_config rt) r) rt u = (Done (), t)"
    unfolding run_one_def by (rule seqM_DoneE)
  have "fetch_config I (rt_server rt) (snd s) = (Done r, snd u)"
    using f by (cases s; cases u) (simp add: onSnd_Done)
  moreover have "counts_down (snd u) (snd t)"
    using keepsD [OF stop.keeps_run_cycle [OF refl] c] by (simp add: snd_related_def)
  ultimately show ?thesis
    using ticks_fetch_config [of I "rt_server rt"] unfolding ticks_def counts_down_def
    by (fastforce split: option.splits)
qed

section \<open>Rounds that nothing interrupts\<close>

abbreviation calm :: "audit_log \<times> 'x world \<Rightarrow> bool" where
  "calm s \<equiv> calm_world (snd s)"

lemma calm_onSnd: "finishes calm_world P m \<Longrightarrow> finishes calm P (onSnd m)"
  unfolding finishes_def onSnd_def by (auto split: prod.split) (metis Pair_inject)

lemma append_Done: "\<exists>a t. audit_append I ev dt (al, w) = (Done a, t)"
  by (auto simp: append_steps Let_def fs_append_def split: option.split)

lemma calm_append: "finishes calm any_value (audit_append I ev dt)"
proof -
  have "calm (snd (audit_append I ev dt s))" if "calm s" for s
    using that by (simp add: append_world)
  then show ?thesis
    unfolding finishes_def using append_Done by (metis prod.collapse snd_conv)
qed

lemmas calm_rules = finish_rules calm_onSnd calm_append

lemma calm_drain: "finishes calm any_value (drain I am lc ops conns c)"
proof (induction ops arbitrary: conns c)
  case (Cons op ops)
  have "finishes calm any_value (settle I am op r c)" for r
    unfolding settle_def by (cases r) (auto intro!: calm_rules)
  with Cons show ?case by (auto intro!: calm_rules)
qed (simp add: finishes_retM)

lemma calm_ad: "finishes calm any_value (ad_run_once I am)"
proof -
  have "finishes calm any_value (ad_pass I am env)" for env
    unfolding ad_pass_def Let_def
    by (auto intro!: calm_rules calm_drain simp del: unbind_all.simps)
  then show ?thesis by (simp add: finishes_def ad_run_once_def)
qed

lemma calm_push_all: "finishes calm any_value (push_all I dm secret recs c)"
  by (induction recs arbitrary: c) (auto intro!: calm_rules split: result.split)

lemma calm_apply_all: "finishes calm any_value (apply_all I dc chs c)"
  by (induction chs arbitrary: c) (auto intro!: calm_rules split: result.split)

lemma calm_db: "finishes calm any_value (db_run_once I dm)"
proof -
  have "finishes calm any_value (db_pass I dm env)" for env
    unfolding db_pass_def outbound_def inbound_def Let_def
    by (auto intro!: calm_rules calm_push_all calm_apply_all split: bool.split option.split)
  then show ?thesis by (simp add: finishes_def db_run_once_def)
qed

text \<open>The sections that the modes take for granted are there, locally and with the broker's settings.\<close>

lemma validated_sections:
  assumes "is_ok (validate c)"
  shows "ag_mode (cf_agent c) = Ad \<Longrightarrow> \<exists>ad. cf_ad c = Some ad" "ag_mode (cf_agent c) = Db \<Longrightarrow> \<exists>db. cf_db c = Some db"
  using assms by (auto simp: validate_def split: if_splits)

lemma validate_effective: "is_ok (validate c) \<Longrightarrow> is_ok (validate (effective c r))"
  by (auto simp: effective_def apply_remote_def validate_def Let_def split: option.split result.split if_splits)

lemma calm_run_one:
  assumes "is_ok (validate (rt_config rt))"
  shows "finishes calm any_value (run_one I rt)"
proof -
  have pass: "finishes calm any_value (run_pass I c sc ci)" if "is_ok (validate c)" for c sc ci
    unfolding run_pass_def run_db_def summary_def
    using validated_sections [OF that]
    by (cases "ag_mode (cf_agent c)") (auto intro!: calm_rules calm_ad calm_db)
  have "finishes calm any_value (after_pass I c sc r)" for c sc r
    unfolding after_pass_def by (auto intro!: calm_rules split: result.split)
  with pass have "finishes calm any_value (run_cycle I c rt)" if "is_ok (validate c)" for c
    unfolding run_cycle_def sleep_def using that by (intro calm_rules) auto
  with validate_effective [OF assms] show ?thesis
    unfolding run_one_def by (auto intro!: calm_rules)
qed

lemma panic_free_run_one:
  assumes "is_ok (validate (rt_config rt))"
  shows "panic_free (run_one I rt)"
proof -
  have pass: "panic_free (run_pass I c sc ci)" if "is_ok (validate c)" for c sc ci
    unfolding run_pass_def run_db_def summary_def
    using validated_sections [OF that]
    by (cases "ag_mode (cf_agent c)") (auto intro!: panic_rules)
  have "panic_free (after_pass I c sc r)" for c sc r
    unfolding after_pass_def by (auto intro!: panic_rules split: result.split)
  with pass have "panic_free (run_cycle I c rt)" if "is_ok (validate c)" for c
    unfolding run_cycle_def sleep_def using that by (intro panic_rules) auto
  with validate_effective [OF assms] show ?thesis
    unfolding run_one_def by (auto intro!: panic_rules)
qed

section \<open>The loop\<close>

lemma serve_stops:
  assumes "is_ok (validate (rt_config rt))"
  shows "w_stop (snd s) = Some n \<Longrightarrow> \<exists>t. serve I rt s = Some (Done (), t)"
proof (induction n arbitrary: s rule: less_induct)
  case (less n)
  obtain x t where one: "run_one I rt s = (x, t)" by (cases "run_one I rt s")
  then have "\<nexists>p. x = Panicked p"
    using panic_freeD [OF panic_free_run_one [OF assms]] by blast
  moreover have "\<exists>u. serve I rt t = Some (Done (), u)" if "x = Done ()"
  proof -
    from run_one_ticks [of I rt s t] one that less(2) obtain k where "k < n" "w_stop (snd t) = Some k"
      by auto
    with less(1) show ?thesis by blast
  qed
  ultimately show ?case by (subst serve.simps) (cases x; simp add: one)
qed

lemma serve_only_stops:
  assumes "is_ok (validate (rt_config rt))" "serve I rt s = Some y"
  shows "w_stop (snd s) \<noteq> None \<and> fst y = Done ()"
  using assms(2)
proof (induction rule: serve_rounds)
  case (cycle s u y)
  with run_one_ticks [OF cycle(2)] show ?case by (auto split: option.splits)
next
  case (panic s p u)
  with panic_freeD [OF panic_free_run_one [OF assms(1)]] show ?case by blast
next
  case (drop s u)
  have "w_stop (snd s) \<noteq> None"
  proof
    assume "w_stop (snd s) = None"
    with calm_run_one [OF assms(1)] obtain a t where "run_one I rt s = (Done a, t)" by (rule finishesE)
    with drop show False by simp
  qed
  then show ?case by simp
qed (simp add: shutdown_seen_def)

section \<open>A whole run\<close>

text \<open>How a run can end: refused at its start, unable to record its start, or served to the end.\<close>

lemma run_start_Done: "\<exists>a t. run_start I m (al, w) = (Done a, t)"
proof -
  obtain a t where "audit_append I ''RUN_START'' (json_obj [(''mode'', JStr m)]) (al, w) = (Done a, t)"
    using append_Done by blast
  then show ?thesis unfolding run_start_def by (cases a) (simp_all add: retM_apply)
qed

lemma serve_not_Dropped: "serve I rt s = Some y \<Longrightarrow> fst y \<noteq> Dropped"
  by (induction rule: serve_rounds) simp_all

lemma run_cases:
  assumes "run I hostname c w = Some (r, u)"
  obtains (refused) e where "r = Done (Err e)" "u = w"
    | (unlogged) al rt e s where "run_start I (mode_as_str (ag_mode (cf_agent c))) (al, w) = (Done (Err e), s)"
        "r = Done (Err e)" "u = snd s" "audit_open I (ag_audit_log (cf_agent c)) w = Ok al"
        "prepare I hostname c (w_env w) = Ok rt"
    | (served) al rt s t v where "audit_open I (ag_audit_log (cf_agent c)) w = Ok al"
        "prepare I hostname c (w_env w) = Ok rt"
        "run_start I (mode_as_str (ag_mode (cf_agent c))) (al, w) = (Done (Ok ()), s)"
        "serve I rt s = Some (Done (), t)" "say_goodbye I rt (signal_consumed t) = (r, v)" "u = snd v"
    | (crashed) al rt s t p where "audit_open I (ag_audit_log (cf_agent c)) w = Ok al"
        "prepare I hostname c (w_env w) = Ok rt"
        "run_start I (mode_as_str (ag_mode (cf_agent c))) (al, w) = (Done (Ok ()), s)"
        "serve I rt s = Some (Panicked p, t)" "r = Panicked p" "u = snd t"
proof (cases "audit_open I (ag_audit_log (cf_agent c)) w")
  case (Err e)
  with assms have "r = Done (Err e)" "u = w" by (simp_all add: run_def)
  then show ?thesis by (rule refused)
next
  case al: (Ok al)
  show ?thesis
  proof (cases "prepare I hostname c (w_env w)")
    case (Err e)
    with assms al have "r = Done (Err e)" "u = w" by (simp_all add: run_def)
    then show ?thesis by (rule refused)
  next
    case rt: (Ok rt)
    obtain a s where st: "run_start I (mode_as_str (ag_mode (cf_agent c))) (al, w) = (Done a, s)"
      using run_start_Done by blast
    show ?thesis
    proof (cases a)
      case (Err e)
      with assms al rt st have "r = Done (Err e)" "u = snd s" by (simp_all add: run_def)
      with st Err al rt show ?thesis using unlogged by blast
    next
      case (Ok x)
      with assms al rt st have "serve I rt s \<noteq> None" by (cases "serve I rt s") (simp_all add: run_def)
      then obtain z t where sv: "serve I rt s = Some (z, t)" by auto
      show ?thesis
      proof (cases z)
        case (Done y)
        obtain q v where bye: "say_goodbye I rt (signal_consumed t) = (q, v)"
          by (cases "say_goodbye I rt (signal_consumed t)")
        with assms al rt st Ok sv Done have "q = r" "u = snd v" by (simp_all add: run_def)
        with al rt st Ok sv Done bye show ?thesis using served by simp
      next
        case (Panicked p)
        with assms al rt st Ok sv have "r = Panicked p" "u = snd t" by (simp_all add: run_def)
        with al rt st Ok sv Panicked show ?thesis using crashed by simp
      next
        case Dropped
        with serve_not_Dropped [OF sv] show ?thesis by simp
      qed
    qed
  qed
qed

lemma server_new_Ok:
  assumes "server_new I base_url token agent_id verify_tls = Ok sc"
  shows "sc_base_url sc = trim_end_matches (CHR ''/'') base_url \<and> sc_agent_token sc = token
    \<and> sc_agent_id sc = agent_id"
  using assms by (auto simp: server_new_def Let_def result_inv)

lemma prepare_Ok:
  assumes "prepare I hostname c env = Ok rt"
  shows "rt_config rt = c" "\<exists>tok. resolve I env (sv_agent_token (cf_server c)) = Ok tok
    \<and> server_new I (sv_base_url (cf_server c)) tok (ag_id (cf_agent c)) (sv_verify_tls (cf_server c))
      = Ok (rt_server rt)"
  using assms by (auto simp: prepare_def result_inv)

context pass_frame
begin

lemma keeps_run:
  assumes "run I hostname c w = Some (r, u)"
    and "\<And>rt. prepare I hostname c (w_env w) = Ok rt \<Longrightarrow> rt_server rt = sc"
    and "\<And>t. Q t (signal_consumed t)"
  shows "u = w \<or> (\<exists>al al'. audit_open I (ag_audit_log (cf_agent c)) w = Ok al \<and> Q (al, w) (al', u))"
  using assms(1)
proof (cases rule: run_cases)
  case (unlogged al rt e s)
  with keepsD [OF keeps_run_start unlogged(1)] show ?thesis by (metis prod.collapse)
next
  case (served al rt s t v)
  note rt = assms(2) [OF served(2)]
  have "Q (al, w) s" "Q s t" "Q (signal_consumed t) v"
    using keepsD [OF keeps_run_start served(3)] keeps_serve [OF served(4) rt]
      keepsD [OF keeps_say_goodbye [OF rt] served(5)] by simp_all
  then have "Q (al, w) v" using assms(3) by (metis frame_trans)
  then show ?thesis using served(1,6) by (metis prod.collapse)
next
  case (crashed al rt s t p)
  note rt = assms(2) [OF crashed(2)]
  have "Q (al, w) s" "Q s t"
    using keepsD [OF keeps_run_start crashed(3)] keeps_serve [OF crashed(4) rt] by simp_all
  then have "Q (al, w) t" by (rule frame_trans)
  then show ?thesis using crashed(1,6) by (metis prod.collapse)
qed simp

end

lemma log_extends_consumed: "log_extends I t (signal_consumed t)"
  using log_extends_calls [of "snd t" "(snd t)\<lparr>w_stop := None\<rparr>" I "fst t"]
  by (simp add: signal_consumed_def disk_kept_def)

lemma goodbye_calm: "finishes calm (\<lambda>r. r = Ok ()) (say_goodbye I rt)"
  unfolding say_goodbye_def by (auto intro!: calm_rules finishes_retM)

section \<open>The calls and the last record of a round\<close>

lemma pause_Done: "pause w = (Done a, w') \<Longrightarrow> w_trace w' = w_trace w"
  by (auto simp: pause_def split: option.splits nat.splits)

lemma fetch_Done:
  assumes "fetch_config I sc w = (Done r, w')"
  shows "w_trace w' = w_trace w @ [EHttp (config_request sc)]"
  using assms unfolding fetch_config_def json_body_def
  by (rule tryM_DoneE)
    (auto simp: retM_apply liftM_def dest!: send_or_Done elim!: seqM_DoneE dest!: pause_Done split: if_splits)

lemma send_ignored_Done:
  assumes "seqM (send I sc rq) (\<lambda>_. retM ()) w = (Done a, w')"
  shows "w_trace w' = w_trace w @ [EHttp rq]"
  using assms unfolding send_def by (auto simp: retM_apply elim!: seqM_DoneE await_DoneE)

lemma notice_Done:
  "heartbeat I sc m h v d w = (Done a, w') \<Longrightarrow> w_trace w' = w_trace w @ [EHttp (heartbeat_request sc m h v d)]"
  "report_run I sc m c w = (Done a, w') \<Longrightarrow> w_trace w' = w_trace w @ [EHttp (run_request sc m c)]"
  "disconnect I sc reason w = (Done a, w') \<Longrightarrow> w_trace w' = w_trace w @ [EHttp (disconnect_request sc reason)]"
  unfolding heartbeat_def report_run_def disconnect_def by (rule send_ignored_Done; assumption)+

lemma sleep_Done: "sleep n w = (Done a, w') \<Longrightarrow> w_trace w' = w_trace w @ [ESleep n]"
  unfolding sleep_def by (erule await_DoneE) simp

lemma append_last:
  assumes "audit_append I ev dt s = (Done x, t)" "plain_detail dt" "log_holds I (fst s) (snd s) rs"
    "writable (snd s) (al_path (fst s))"
  shows "\<exists>rec. x = Ok rec \<and> log_holds I (fst t) (snd t) (rs @ [rec]) \<and> (ar_event rec, ar_detail rec) = (ev, dt)"
proof -
  have q: "w_quota (snd s) = None" using assms(4) by (simp add: writable_def)
  from append_done [OF q assms(2), of I ev "fst s"] obtain res u where
    "audit_append I ev dt s = (Done res, u)" "append_adds I ev dt s res u"
    "is_ok res = (w_nowrite (snd s) (al_path (fst s)) = None)" by auto
  with assms show ?thesis by (cases res) (auto simp: append_adds_def writable_def)
qed

lemma extends_log:
  assumes "log_extends I s t" "log_holds I (fst s) (snd s) rs" "writable (snd s) (al_path (fst s))"
  shows "\<exists>ss. log_holds I (fst t) (snd t) (rs @ ss) \<and> writable (snd t) (al_path (fst t))"
  using assms by (auto simp: log_extends_def writable_def)

text \<open>The record that ends a round, by how its pass ended.\<close>

definition closing :: "string \<Rightarrow> (agent_error, sync_counters) result \<Rightarrow> string \<times> json" where
  "closing m p = (case p of
     Ok c \<Rightarrow> (''SYNC_SUMMARY'', json_obj [(''mode'', JStr m), (''counts'', counters_tree c)])
   | Err e \<Rightarrow> (''RUN_ERROR'', json_obj [(''error'', JStr (error_str e))]))"

lemma pass_closes:
  assumes "run_pass I c sc ci s = (Done (Ok k), t)"
    and "log_holds I (fst s) (snd s) rs" "writable (snd s) (al_path (fst s))"
  shows "\<exists>ss rec. log_holds I (fst t) (snd t) (rs @ ss @ [rec])
    \<and> (ar_event rec, ar_detail rec) = closing (mode_as_str (ag_mode (cf_agent c))) (Ok k)"
proof -
  let ?ev = "json_obj [(''mode'', JStr (mode_as_str (ag_mode (cf_agent c)))), (''counts'', counters_tree k)]"
  let ?pass = "case ag_mode (cf_agent c) of
             Ad \<Rightarrow> (case cf_ad c of
                     None \<Rightarrow> panicM ''validated''
                   | Some ad \<Rightarrow> ad_run_once I \<lparr>am_server = sc, am_ad = ad, am_cipher = ci,
                       am_verify_tls = sv_verify_tls (cf_server c), am_batch = BATCH\<rparr>)
           | Db \<Rightarrow> run_db I c sc"
  from assms(1) obtain s1 r where pass: "?pass s = (Done (Ok k), s1)"
    and app: "audit_append I ''SYNC_SUMMARY'' ?ev s1 = (Done (Ok r), t)"
    unfolding run_pass_def summary_def by (auto simp: retM_apply elim!: tryM_OkE simp del: append.simps)
  have db: "keeps (log_extends I) (run_db I c sc)"
    unfolding run_db_def
    by (auto intro: log.keeps_panicM log.keeps_retM log.keeps_db split: option.split)
  have "keeps (log_extends I) ?pass"
    by (auto intro: log.keeps_panicM log.keeps_ad db split: mode.split option.split)
  from extends_log [OF keepsD [OF this pass] assms(2,3)] obtain ss where
    ss: "log_holds I (fst s1) (snd s1) (rs @ ss)" "writable (snd s1) (al_path (fst s1))" by blast
  from append_last [OF app plain_run_events(3) ss] show ?thesis
    by (auto simp: closing_def)
qed

text \<open>The report that follows a pass: only of a pass that found something to do.\<close>

definition reported :: "server_client \<Rightarrow> string \<Rightarrow> (agent_error, sync_counters) result \<Rightarrow> effect list" where
  "reported sc m p = (case p of
     Ok c \<Rightarrow> if 0 < c_inspected c then [EHttp (run_request sc m c)] else [] | Err e \<Rightarrow> [])"

lemma after_pass_trace:
  assumes "after_pass I c sc p s = (Done a, t)"
  shows "w_trace (snd t) = w_trace (snd s) @ reported sc (mode_as_str (ag_mode (cf_agent c))) p"
proof (cases p)
  case (Ok k)
  obtain al w al' w' where st: "s = (al, w)" "t = (al', w')" by fastforce
  from assms show ?thesis
    by (cases "0 < c_inspected k")
      (auto simp: after_pass_def Ok reported_def onSnd_Done retM_apply st dest: notice_Done(2))
next
  case (Err e)
  with assms show ?thesis
    by (auto simp: after_pass_def reported_def retM_apply elim!: seqM_DoneE simp del: append.simps)
      (metis append_world(2) snd_conv)
qed

lemma after_pass_log:
  assumes "after_pass I c sc (Err e) s = (Done a, t)"
    and "log_holds I (fst s) (snd s) rs" "writable (snd s) (al_path (fst s))"
  shows "\<exists>rec. log_holds I (fst t) (snd t) (rs @ [rec]) \<and> (ar_event rec, ar_detail rec) = closing m (Err e)"
proof -
  from assms(1) obtain x where "audit_append I ''RUN_ERROR'' (json_obj [(''error'', JStr (error_str e))]) s
      = (Done x, t)"
    by (auto simp: after_pass_def retM_apply elim!: seqM_DoneE simp del: append.simps)
  from append_last [OF this plain_run_events(2) assms(2,3)] show ?thesis by (auto simp: closing_def)
qed

lemma after_pass_log_Ok:
  assumes "after_pass I c sc (Ok k) s = (Done a, t)"
  shows "log_holds I (fst t) (snd t) rs \<longleftrightarrow> log_holds I (fst s) (snd s) rs"
proof -
  obtain al w al' w' where st: "s = (al, w)" "t = (al', w')" by fastforce
  from assms have "al' = al \<and> (w' = w \<or> disk_kept w w')"
    by (auto simp: after_pass_def st onSnd_Done retM_apply split: if_splits
        dest: keepsD [OF disk.keeps_server(7) [OF TrueI]])
  then show ?thesis by (auto simp: st log_holds_disk)
qed

lemma pass_leaves_closing:
  assumes "run_pass I c sc ci s = (Done p, t)" "after_pass I c sc p t = (Done a, u)"
    and "log_holds I (fst s) (snd s) rs" "writable (snd s) (al_path (fst s))"
  shows "\<exists>ss rec. log_holds I (fst u) (snd u) (rs @ ss @ [rec])
    \<and> (ar_event rec, ar_detail rec) = closing (mode_as_str (ag_mode (cf_agent c))) p"
proof (cases p)
  case (Ok k)
  with pass_closes [OF _ assms(3,4)] assms(1,2) after_pass_log_Ok show ?thesis by metis
next
  case (Err e)
  from extends_log [OF keepsD [OF log.keeps_run_pass assms(1)] assms(3,4)] obtain ss where
    "log_holds I (fst t) (snd t) (rs @ ss)" "writable (snd t) (al_path (fst t))" by blast
  from after_pass_log [OF assms(2) [unfolded Err] this, of "mode_as_str (ag_mode (cf_agent c))"]
  show ?thesis unfolding Err by (metis append_assoc)
qed

text \<open>A round taken apart.\<close>

lemma run_one_steps:
  assumes "run_one I rt s = (Done (), t)"
  obtains r s1 s2 p s3 s4 where "onSnd (fetch_config I (rt_server rt)) s = (Done r, s1)"
    "onSnd (heartbeat I (rt_server rt) (mode_as_str (ag_mode (cf_agent (effective (rt_config rt) r))))
       (rt_hostname rt) VERSION (rt_directory_id rt)) s1 = (Done (), s2)"
    "run_pass I (effective (rt_config rt) r) (rt_server rt) (rt_cipher rt) s2 = (Done p, s3)"
    "after_pass I (effective (rt_config rt) r) (rt_server rt) p s3 = (Done (), s4)"
    "onSnd (sleep (ag_poll_interval_secs (cf_agent (effective (rt_config rt) r)))) s4 = (Done (), t)"
  using assms unfolding run_one_def run_cycle_def
  by (elim seqM_DoneE) (metis (full_types) old.unit.exhaust)

lemma effective_mode [simp]:
  "ag_mode (cf_agent (effective c r)) = ag_mode (cf_agent c)"
  by (auto simp: effective_def apply_remote_def Let_def split: result.split option.split)

section \<open>The end of a run\<close>

lemma goodbye_run:
  assumes "say_goodbye I rt (signal_consumed s) = (r, t)"
  shows "r = Done (Ok ())"
    and "w_trace (snd t) = w_trace (snd s) @ [EHttp (disconnect_request (rt_server rt) ''agent shutdown'')]"
    and "log_holds I (fst s) (snd s) rs \<Longrightarrow> writable (snd s) (al_path (fst s)) \<Longrightarrow>
      \<exists>rec. log_holds I (fst t) (snd t) (rs @ [rec]) \<and> ar_event rec = ''RUN_STOP''"
proof -
  have "calm (signal_consumed s)" by (simp add: signal_consumed_def)
  with goodbye_calm obtain a u where "say_goodbye I rt (signal_consumed s) = (Done a, u)" "a = Ok ()"
    by (rule finishesE)
  with assms show r: "r = Done (Ok ())" by simp
  let ?ev = "json_obj [(''mode'', JStr (mode_as_str (ag_mode (cf_agent (rt_config rt)))))]"
  from assms r obtain x s1 y where d: "onSnd (disconnect I (rt_server rt) ''agent shutdown'') (signal_consumed s)
      = (Done x, s1)" and l: "audit_append I ''RUN_STOP'' ?ev s1 = (Done y, t)"
    unfolding say_goodbye_def by (auto simp: retM_apply elim!: seqM_DoneE simp del: append.simps)
  from d have d': "fst s1 = fst s" "disconnect I (rt_server rt) ''agent shutdown'' (snd (signal_consumed s))
      = (Done x, snd s1)" by (simp_all add: onSnd_Done_iff signal_consumed_def)
  have k: "disk_kept (snd (signal_consumed s)) (snd s1)"
    using keepsD [OF disk.keeps_server(8) [OF TrueI] d'(2)] .
  show "w_trace (snd t) = w_trace (snd s) @ [EHttp (disconnect_request (rt_server rt) ''agent shutdown'')]"
    using notice_Done(3) [OF d'(2)] append_world(2) [of I "''RUN_STOP''" ?ev s1] l
    by (simp add: signal_consumed_def)
  assume "log_holds I (fst s) (snd s) rs" "writable (snd s) (al_path (fst s))"
  with k d'(1) have "log_holds I (fst s1) (snd s1) rs" "writable (snd s1) (al_path (fst s1))"
    by (simp_all add: log_holds_def writable_def signal_consumed_def disk_kept_def)
  from append_last [OF l plain_run_events(1) this]
  show "\<exists>rec. log_holds I (fst t) (snd t) (rs @ [rec]) \<and> ar_event rec = ''RUN_STOP''" by auto
qed

lemma run_start_log:
  assumes "log_holds I al w rs" "writable w (al_path al)"
  shows "\<exists>t rec. run_start I m (al, w) = (Done (Ok ()), t) \<and> ar_event rec = ''RUN_START''
    \<and> log_holds I (fst t) (snd t) (rs @ [rec]) \<and> writable (snd t) (al_path (fst t))
    \<and> w_stop (snd t) = w_stop w \<and> w_trace (snd t) = w_trace w"
proof -
  let ?ev = "json_obj [(''mode'', JStr m)]"
  obtain x t where a: "audit_append I ''RUN_START'' ?ev (al, w) = (Done x, t)"
    using append_Done by blast
  from append_last [OF a plain_run_events(1)] assms obtain rec where rec: "x = Ok rec"
    "log_holds I (fst t) (snd t) (rs @ [rec])" "ar_event rec = ''RUN_START''" by auto
  have "writable (snd t) (al_path (fst t))"
    using keepsD [OF keeps_log_append [OF plain_run_events(1)] a] assms(2)
    by (auto simp: log_extends_def writable_def)
  moreover have "w_stop (snd t) = w_stop w" "w_trace (snd t) = w_trace w"
    using append_world [of I "''RUN_START''" ?ev "(al, w)"] a by simp_all
  ultimately show ?thesis
    using rec a by (intro exI [of _ t] exI [of _ rec]) (simp add: run_start_def retM_apply)
qed

text \<open>The loop's head after a number of rounds.\<close>

primrec rounds :: "'x iface \<Rightarrow> runtime \<Rightarrow> nat \<Rightarrow> audit_log \<times> 'x world \<Rightarrow> (audit_log \<times> 'x world) option" where
  "rounds I rt 0 s = Some s"
| "rounds I rt (Suc k) s = (case run_one I rt s of (Done _, t) \<Rightarrow> rounds I rt k t | _ \<Rightarrow> None)"

lemma rounds_calm:
  assumes "is_ok (validate (rt_config rt))" "calm s"
  shows "\<exists>t. rounds I rt k s = Some t"
  using assms(2)
proof (induction k arbitrary: s)
  case (Suc k)
  from calm_run_one [OF assms(1)] Suc(2) obtain a t where "run_one I rt s = (Done a, t)" "calm t"
    by (rule finishesE)
  with Suc(1) [of t] show ?case by simp
qed simp

end
