(* ===== verification/Runner_Props.thy ===== *)
theory Runner_Props
  imports Runner_Thms
begin

text \<open>
  The properties of the service as a whole. The shutdown signal may arrive at any await point, or
  never: \<open>w_stop\<close> is universally quantified, so that what holds when a run ends holds at every point
  at which a run can be stopped.
\<close>

section \<open>Whatever happens\<close>



section \<open>One round\<close>

text \<open>
  C12. A completed round fetches the broker's settings, sends a heartbeat, runs one pass under the
  local configuration with these settings applied to it afresh, reports the pass exactly when it
  inspected something, and sleeps for the effective interval, in this order. When the log can be
  written, the round's last record is the pass's summary with its counters, or its error.
\<close>

theorem round_order:
  assumes "run_one I rt s = (Done (), t)"
  shows "\<exists>r w1 c s2 p s3 es.
    fetch_config I (rt_server rt) (snd s) = (Done r, w1) \<and> c = effective (rt_config rt) r
    \<and> w_trace (snd s2) = w_trace (snd s) @ [EHttp (config_request (rt_server rt)),
        EHttp (heartbeat_request (rt_server rt) (mode_as_str (ag_mode (cf_agent (rt_config rt))))
          (rt_hostname rt) VERSION (rt_directory_id rt))]
    \<and> run_pass I c (rt_server rt) (rt_cipher rt) s2 = (Done p, s3)
    \<and> w_trace (snd s3) = w_trace (snd s2) @ es
    \<and> w_trace (snd t) = w_trace (snd s3)
        @ reported (rt_server rt) (mode_as_str (ag_mode (cf_agent (rt_config rt)))) p
        @ [ESleep (ag_poll_interval_secs (cf_agent c))]
    \<and> (\<forall>rs. log_holds I (fst s) (snd s) rs \<and> writable (snd s) (al_path (fst s)) \<longrightarrow>
         (\<exists>ss rec. log_holds I (fst t) (snd t) (rs @ ss @ [rec])
            \<and> (ar_event rec, ar_detail rec) = closing (mode_as_str (ag_mode (cf_agent (rt_config rt)))) p))"
proof -
  let ?sc = "rt_server rt" and ?m = "mode_as_str (ag_mode (cf_agent (rt_config rt)))"
  from assms obtain r s1 s2 p s3 s4 where
    f: "onSnd (fetch_config I ?sc) s = (Done r, s1)"
    and h: "onSnd (heartbeat I ?sc ?m (rt_hostname rt) VERSION (rt_directory_id rt)) s1 = (Done (), s2)"
    and p: "run_pass I (effective (rt_config rt) r) ?sc (rt_cipher rt) s2 = (Done p, s3)"
    and a: "after_pass I (effective (rt_config rt) r) ?sc p s3 = (Done (), s4)"
    and z: "onSnd (sleep (ag_poll_interval_secs (cf_agent (effective (rt_config rt) r)))) s4 = (Done (), t)"
    by (rule run_one_steps [unfolded effective_mode]) (rule that)
  have calls: "fetch_config I ?sc (snd s) = (Done r, snd s1)" "fst s1 = fst s"
    "heartbeat I ?sc ?m (rt_hostname rt) VERSION (rt_directory_id rt) (snd s1) = (Done (), snd s2)" "fst s2 = fst s1"
    "sleep (ag_poll_interval_secs (cf_agent (effective (rt_config rt) r))) (snd s4) = (Done (), snd t)" "fst t = fst s4"
    using f h z unfolding onSnd_Done_iff by simp_all
  have s12: "log_extends I s s2"
    using log_extends_trans [OF keepsD [OF log.keeps_pass_calls [OF disk.keeps_server(1) [OF TrueI]] f]
      keepsD [OF log.keeps_pass_calls [OF disk.keeps_server(6) [OF TrueI]] h]] .
  have s4t: "disk_kept (snd s4) (snd t)" using keepsD [OF log.keeps_sleep calls(5)] .
  have "\<exists>ss rec. log_holds I (fst t) (snd t) (rs @ ss @ [rec]) \<and> (ar_event rec, ar_detail rec) = closing ?m p"
    if rs: "log_holds I (fst s) (snd s) rs" "writable (snd s) (al_path (fst s))" for rs
  proof -
    from extends_log [OF s12 rs] obtain ss where
      ss: "log_holds I (fst s2) (snd s2) (rs @ ss)" "writable (snd s2) (al_path (fst s2))" by blast
    from pass_leaves_closing [OF p a ss] obtain ss' rec where
      "log_holds I (fst s4) (snd s4) ((rs @ ss) @ ss' @ [rec])" "(ar_event rec, ar_detail rec) = closing ?m p"
      by auto
    then show ?thesis
      by (intro exI [of _ "ss @ ss'"] exI [of _ rec]) (simp add: log_holds_disk [OF s4t] calls(6))
  qed
  moreover have "w_trace (snd s2) = w_trace (snd s) @ [EHttp (config_request ?sc),
      EHttp (heartbeat_request ?sc ?m (rt_hostname rt) VERSION (rt_directory_id rt))]"
    using fetch_Done [OF calls(1)] notice_Done(1) [OF calls(3)] by simp
  moreover have "w_trace (snd t) = w_trace (snd s3) @ reported ?sc ?m p
      @ [ESleep (ag_poll_interval_secs (cf_agent (effective (rt_config rt) r)))]"
    using after_pass_trace [OF a] sleep_Done [OF calls(5)] by simp
  moreover obtain es where "w_trace (snd s3) = w_trace (snd s2) @ es"
    using keepsD [OF client.keeps_run_pass p] by (auto simp: snd_related_def sends_def)
  ultimately show ?thesis
    using calls(1) p
    by (intro exI [of _ r] exI [of _ "snd s1"] exI [of _ "effective (rt_config rt) r"] exI [of _ s2]
        exI [of _ p] exI [of _ s3] exI [of _ es] conjI allI impI refl; (elim conjE)?) assumption+
qed

section \<open>How a run ends\<close>

text \<open>
  C11. A run of a validated configuration never panics. It ends in one of two ways only: it fails
  at its start, with the error of reading the log, resolving the token, building the client,
  reading the key or recording the start, before any call to another system; or it ends well,
  because the shutdown was ordered, with the disconnect from the broker as its last call.
\<close>

theorem run_ends_properly:
  assumes "is_ok (validate c)" "run I hostname c w = Some (r, u)"
  shows "(\<exists>e. r = Done (Err e) \<and> w_trace u = w_trace w)
    \<or> (\<exists>rt es. r = Done (Ok ()) \<and> w_stop w \<noteq> None \<and> prepare I hostname c (w_env w) = Ok rt
        \<and> w_trace u = w_trace w @ es @ [EHttp (disconnect_request (rt_server rt) ''agent shutdown'')])"
  using assms(2)
proof (cases rule: run_cases)
  case (unlogged al rt e s)
  from unlogged(1) have "w_trace (snd s) = w_trace w"
    unfolding run_start_def
    by (rule tryM_DoneE) (auto simp: retM_apply dest: arg_cong [where f = "\<lambda>x. w_trace (snd (snd x))"]
      simp: append_world)
  with unlogged show ?thesis by simp
next
  case (served al rt s t v)
  have valid: "is_ok (validate (rt_config rt))" using prepare_Ok(1) [OF served(2)] assms(1) by simp
  have "keeps (snd_related counts_down) (run_start I m)" for m by (rule stop.keeps_run_start)
  from keepsD [OF this served(3)] serve_only_stops [OF valid served(4)] have "w_stop w \<noteq> None"
    by (auto simp: snd_related_def counts_down_def split: option.splits)
  moreover have "snd_related (sends (speaks_as (rt_server rt))) (al, w) t"
    using client.frame_trans [OF keepsD [OF client.keeps_run_start served(3)]
        client.keeps_serve [OF served(4) refl]] by simp
  moreover note goodbye_run(1,2) [OF served(5)]
  ultimately show ?thesis using served(2,6) by (auto simp: snd_related_def sends_def)
next
  case (crashed al rt s t p)
  have "is_ok (validate (rt_config rt))" using prepare_Ok(1) [OF crashed(2)] assms(1) by simp
  from serve_only_stops [OF this crashed(4)] show ?thesis by simp
qed simp


text \<open>
  C4. A shutdown is graceful at whatever moment it is ordered: the run returns without an error,
  its last call tells the broker that the agent disconnects, and the log gets the record of the
  start, the records of the work done, and as its last record that of the stop.
\<close>

theorem shutdown_is_graceful:
  assumes "json_laws I" "is_ok (validate c)" "w_stop w = Some n" "prepare I hostname c (w_env w) = Ok rt"
    and "log_holds I al w rs" "al_path al = ag_audit_log (cf_agent c)" "writable w (ag_audit_log (cf_agent c))"
  shows "\<exists>u es first ss last. run I hostname c w = Some (Done (Ok ()), u)
    \<and> w_trace u = w_trace w @ es @ [EHttp (disconnect_request (rt_server rt) ''agent shutdown'')]
    \<and> file_records I (ag_audit_log (cf_agent c)) u = Ok (rs @ first # ss @ [last])
    \<and> ar_event first = ''RUN_START'' \<and> ar_event last = ''RUN_STOP''"
proof -
  have valid: "is_ok (validate (rt_config rt))" using prepare_Ok(1) [OF assms(4)] assms(2) by simp
  have op: "audit_open I (ag_audit_log (cf_agent c)) w = Ok al"
    using open_holds [OF assms(1,5)] assms(6) by simp
  let ?m = "mode_as_str (ag_mode (cf_agent c))"
  from run_start_log [OF assms(5)] assms(6,7) obtain s first where
    s: "run_start I ?m (al, w) = (Done (Ok ()), s)" "ar_event first = ''RUN_START''"
      "log_holds I (fst s) (snd s) (rs @ [first])" "writable (snd s) (al_path (fst s))"
      "w_stop (snd s) = w_stop w" "w_trace (snd s) = w_trace w"
    by (metis (no_types, lifting))
  from serve_stops [OF valid, of s n I] s(5) assms(3) obtain t where t: "serve I rt s = Some (Done (), t)"
    by auto
  obtain r v where bye: "say_goodbye I rt (signal_consumed t) = (r, v)"
    by (cases "say_goodbye I rt (signal_consumed t)")
  note bye' = goodbye_run [OF bye]
  have ext: "log_extends I s t" using log.keeps_serve [OF t refl] by simp
  from extends_log [OF this s(3,4)] obtain ss where
    ss: "log_holds I (fst t) (snd t) ((rs @ [first]) @ ss)" "writable (snd t) (al_path (fst t))" by blast
  from bye'(3) [OF this] obtain last where
    last: "log_holds I (fst v) (snd v) (((rs @ [first]) @ ss) @ [last])" "ar_event last = ''RUN_STOP''" by blast
  have path: "al_path (fst v) = ag_audit_log (cf_agent c)"
    using keepsD [OF log.keeps_run_start s(1)] ext keepsD [OF log.keeps_say_goodbye [OF refl] bye] assms(6)
    by (simp add: log_extends_def signal_consumed_def)
  obtain es where "w_trace (snd t) = w_trace w @ es"
    using client.keeps_serve [OF t refl] s(6) by (auto simp: snd_related_def sends_def)
  with bye'(1,2) log_file_records [OF assms(1) last(1)] path op assms(4) s(1,2) t bye last(2)
  show ?thesis
    by (intro exI [of _ "snd v"] exI [of _ es] exI [of _ first] exI [of _ ss] exI [of _ last])
      (simp add: run_def)
qed

section \<open>A service for the witnesses\<close>

definition service_env :: "string \<rightharpoonup> string" where
  "service_env = [''TOKEN'' \<mapsto> ''t'', ''KEY'' \<mapsto> letters (ci_key sample_cipher), ''PW'' \<mapsto> ''pw'']"

definition service_world :: "nat option \<Rightarrow> sample_dir world" where
  "service_world n = (world_on [])\<lparr>w_env := service_env, w_stop := n\<rparr>"

definition service_runtime :: runtime where
  "service_runtime = \<lparr>rt_config = sample_config,
     rt_server = \<lparr>sc_http = \<lparr>hc_timeout_secs = 30, hc_accept_invalid_certs = False,
                               hc_user_agent = ''nexus-agent/0.2.1''\<rparr>,
                  sc_base_url = ''https://idp'', sc_agent_token = ''t'', sc_agent_id = ''dc-01''\<rparr>,
     rt_cipher = sample_cipher\<lparr>ci_key_id := ''local-default''\<rparr>, rt_hostname = ''host'',
     rt_directory_id = None\<rparr>"

lemma service_config: "is_ok (validate sample_config)" "is_ok (validate (rt_config service_runtime))"
  "ag_audit_log (cf_agent sample_config) = ''./nexus-agent.audit.jsonl''"
  by (simp_all add: validate_def sample_config_def service_runtime_def)

lemma service_token: "resolve sample_broker_iface service_env (sv_agent_token (cf_server sample_config)) = Ok ''t''"
proof -
  have "sv_agent_token (cf_server sample_config) = ''env:'' @ ''TOKEN''" by (simp add: sample_config_def)
  then show ?thesis by (simp only: resolve_env) (simp add: service_env_def)
qed

lemma service_cipher: "server_cipher sample_broker_iface service_env sample_config
    = Ok (sample_cipher\<lparr>ci_key_id := ''local-default''\<rparr>)"
proof -
  have "sv_secret_key (cf_server sample_config) = ''env:'' @ ''KEY''" by (simp add: sample_config_def)
  then have "resolve sample_broker_iface service_env (sv_secret_key (cf_server sample_config))
      = Ok (letters (ci_key sample_cipher))"
    by (simp only: resolve_env) (simp add: service_env_def)
  moreover have "trim (letters x) = letters x" for x
    using trim_b64 [OF sample_cipher_laws, of x] by (simp add: sample_iface_def base_iface_def)
  ultimately show ?thesis
    by (simp add: server_cipher_def from_base64_key_def sample_broker_iface_def sample_dir_iface_def
        base_iface_def) (simp add: sample_cipher_def)
qed

lemma service_prepared:
  "prepare sample_broker_iface ''host'' sample_config (w_env (service_world n)) = Ok service_runtime"
proof -
  have "directory_id service_env sample_config = None"
    by (simp add: directory_id_def directory_id_from_def nonempty_def env_var_def service_env_def
        sample_config_def)
  moreover have "trim_end_matches (CHR ''/'') ''https://idp'' = ''https://idp''" by code_simp
  ultimately show ?thesis
    by (simp add: prepare_def service_world_def service_token service_cipher)
      (simp add: server_new_def sample_broker_iface_def sample_dir_iface_def base_iface_def service_runtime_def
        sample_config_def VERSION_def)
qed

lemma service_log:
  "log_holds sample_broker_iface (fresh_log ''./nexus-agent.audit.jsonl'') (service_world n) []"
  "json_laws sample_broker_iface" "writable (service_world n) ''./nexus-agent.audit.jsonl''"
  "al_path (fresh_log ''./nexus-agent.audit.jsonl'') = ''./nexus-agent.audit.jsonl''"
  "w_quota (service_world n) = None" "w_stop (service_world n) = n"
  using sample_json_laws
  by (simp_all add: log_holds_def fresh_log_def service_world_def world_on_def writable_def json_laws_def
      sample_broker_iface_def sample_dir_iface_def sample_iface_def base_iface_def)

lemma service_open:
  "audit_open sample_broker_iface (ag_audit_log (cf_agent sample_config)) (service_world n)
    = Ok (fresh_log ''./nexus-agent.audit.jsonl'')"
  using open_holds [OF service_log(2) service_log(1)] service_log(4) service_config(3) by simp

lemma service_start:
  "\<exists>s. run_start sample_broker_iface m (fresh_log ''./nexus-agent.audit.jsonl'', service_world n)
     = (Done (Ok ()), s) \<and> w_stop (snd s) = n"
  using run_start_log [OF service_log(1), of n m] service_log(3) [of n] service_log(4,6) by metis

lemma service_runs:
  "\<exists>u. run sample_broker_iface ''host'' sample_config (service_world (Some n)) = Some (Done (Ok ()), u)"
proof -
  obtain s where s: "run_start sample_broker_iface (mode_as_str (ag_mode (cf_agent sample_config)))
      (fresh_log ''./nexus-agent.audit.jsonl'', service_world (Some n)) = (Done (Ok ()), s)"
      "w_stop (snd s) = Some n"
    using service_start by blast
  then obtain t where t: "serve sample_broker_iface service_runtime s = Some (Done (), t)"
    using serve_stops [OF service_config(2)] by blast
  obtain r v where bye: "say_goodbye sample_broker_iface service_runtime (signal_consumed t) = (r, v)"
    by (cases "say_goodbye sample_broker_iface service_runtime (signal_consumed t)")
  from s t bye goodbye_run(1) [OF bye] service_open service_prepared show ?thesis by (simp add: run_def)
qed



theorem round_order_witness:
  "\<exists>t es n. run_one sample_broker_iface service_runtime
       (fresh_log ''./nexus-agent.audit.jsonl'', service_world None) = (Done (), t)
     \<and> w_trace (snd t) = [EHttp (config_request (rt_server service_runtime)),
          EHttp (heartbeat_request (rt_server service_runtime) ''ad'' ''host'' VERSION None)] @ es @ [ESleep n]"
proof -
  let ?s = "(fresh_log ''./nexus-agent.audit.jsonl'', service_world None)"
  have "calm ?s" by (simp add: service_log(6))
  with calm_run_one [OF service_config(2)] obtain a t where
    t: "run_one sample_broker_iface service_runtime ?s = (Done a, t)" by (rule finishesE)
  then have u: "run_one sample_broker_iface service_runtime ?s = (Done (), t)" by simp
  have "mode_as_str (ag_mode (cf_agent (rt_config service_runtime))) = ''ad''"
    "rt_hostname service_runtime = ''host''" "rt_directory_id service_runtime = None"
    "w_trace (snd ?s) = []"
    by (simp_all add: service_runtime_def sample_config_def service_world_def world_on_def)
  with round_order [OF u] u show ?thesis by auto
qed

theorem run_ends_properly_witness:
  "\<exists>u es sc. run sample_broker_iface ''host'' sample_config (service_world (Some 7)) = Some (Done (Ok ()), u)
     \<and> w_trace u = es @ [EHttp (disconnect_request sc ''agent shutdown'')]"
proof -
  obtain u where u: "run sample_broker_iface ''host'' sample_config (service_world (Some 7)) = Some (Done (Ok ()), u)"
    using service_runs by blast
  from run_ends_properly [OF service_config(1) u] u show ?thesis by (auto simp: service_world_def world_on_def)
qed


theorem shutdown_is_graceful_witness:
  "\<exists>u first ss last. run sample_broker_iface ''host'' sample_config (service_world (Some 7))
       = Some (Done (Ok ()), u)
     \<and> file_records sample_broker_iface ''./nexus-agent.audit.jsonl'' u = Ok (first # ss @ [last])
     \<and> ar_event first = ''RUN_START'' \<and> ar_event last = ''RUN_STOP''"
  using shutdown_is_graceful [OF service_log(2) service_config(1) service_log(6) service_prepared service_log(1)]
    service_log(3,4) service_config(3) by force

end
