(* ===== verification/Win_Service.thy ===== *)
theory Win_Service
  imports Sample
begin

text \<open>
  \<open>src/service.rs\<close>: registering, starting and removing the Windows service. Each call to the
  Service Control Manager is an effect; a handle that goes out of scope is closed, which is not
  modelled. The control handler is here, the rest of the service's own process is in \<open>Win_Process\<close>.
\<close>

definition SERVICE_NAME :: string where
  "SERVICE_NAME = ''NexusAgent''"

definition DISPLAY_NAME :: string where
  "DISPLAY_NAME = ''NexusID Sync Agent''"

section \<open>The control handler\<close>

datatype service_control = Stop_control | Shutdown_control | Interrogate_control | Other_control

datatype handler_result = No_error | Not_implemented

text \<open>The answer to a control, and whether it orders the stop.\<close>

fun control_handler :: "service_control \<Rightarrow> handler_result \<times> bool" where
  "control_handler Stop_control = (No_error, True)"
| "control_handler Shutdown_control = (No_error, True)"
| "control_handler Interrogate_control = (No_error, False)"
| "control_handler Other_control = (Not_implemented, False)"

section \<open>Registration\<close>

definition scm :: "'x iface \<Rightarrow> scm_call \<Rightarrow> ('x world, (string, nat) result) act" where
  "scm I c = blocking (EScm c) (if_scm I c)"

text \<open>A call with its \<open>map_err\<close> to a configuration error.\<close>

definition scm_or :: "'x iface \<Rightarrow> string \<Rightarrow> scm_call \<Rightarrow> ('x world, (agent_error, nat) result) act" where
  "scm_or I what c = seqM (scm I c) (\<lambda>r. liftM (map_err (\<lambda>e. Config_err (what @ e)) r))"

definition service_entry :: "string \<Rightarrow> string \<Rightarrow> service_info" where
  "service_entry exe config_path =
     \<lparr>si_name = SERVICE_NAME, si_display_name = DISPLAY_NAME, si_auto_start = True, si_executable = exe,
      si_launch_arguments = [''run-service'', ''--config'', config_path], si_account_name = None\<rparr>"

definition install :: "'x iface \<Rightarrow> string \<Rightarrow> ('x world, (agent_error, unit) result) act" where
  "install I config_path =
     tryM (scm_or I ''open SCM (run as Administrator): '' (ScmManager [CREATE_SERVICE])) (\<lambda>manager.
       tryM (liftM (map_err (\<lambda>e. Config_err (''current exe: '' @ e)) (if_current_exe I))) (\<lambda>exe.
         tryM (scm_or I ''create service: ''
                 (ScmCreate manager (service_entry exe config_path) [CHANGE_CONFIG, START])) (\<lambda>service.
           seqM (scm I (ScmDescribe service ''NexusID hybrid AD/DB sync agent'')) (\<lambda>_.
             tryM (scm_or I ''start service: '' (ScmStart service)) (\<lambda>_. retM (Ok ()))))))"

definition ensure_running :: "'x iface \<Rightarrow> string \<Rightarrow> ('x world, (agent_error, unit) result) act" where
  "ensure_running I config_path =
     tryM (scm_or I ''open SCM (run as Administrator): '' (ScmManager [CONNECT])) (\<lambda>manager.
       seqM (scm I (ScmOpen manager SERVICE_NAME [START, STOP, QUERY_STATUS])) (\<lambda>r.
         case r of
           Ok service \<Rightarrow>
             seqM (scm I (ScmStop service)) (\<lambda>_.
               tryM (scm_or I ''start service: '' (ScmStart service)) (\<lambda>_. retM (Ok ())))
         | Err _ \<Rightarrow> install I config_path))"

definition uninstall :: "'x iface \<Rightarrow> ('x world, (agent_error, unit) result) act" where
  "uninstall I =
     tryM (scm_or I ''open SCM (run as Administrator): '' (ScmManager [CONNECT])) (\<lambda>manager.
       tryM (scm_or I ''open service: '' (ScmOpen manager SERVICE_NAME [STOP, DELETE, QUERY_STATUS])) (\<lambda>service.
         seqM (scm I (ScmStop service)) (\<lambda>_.
           tryM (scm_or I ''delete service: '' (ScmDelete service)) (\<lambda>_. retM (Ok ())))))"

section \<open>Properties\<close>

lemma scm_run: "scm I c w = (Done (fst (if_scm I c (w_ext w))),
    w\<lparr>w_trace := w_trace w @ [EScm c], w_ext := snd (if_scm I c (w_ext w))\<rparr>)"
  by (simp add: scm_def blocking_def perform_def case_prod_beta)

lemma scm_or_run: "scm_or I what c w =
    (Done (map_err (\<lambda>e. Config_err (what @ e)) (fst (if_scm I c (w_ext w)))),
     w\<lparr>w_trace := w_trace w @ [EScm c], w_ext := snd (if_scm I c (w_ext w))\<rparr>)"
  by (simp add: scm_or_def scm_run liftM_def retM_def)

text \<open>
  Making the service run with a new configuration file does not do so when the service is
  registered already: the calls made, and the result, are the same for any two paths, so the
  service starts with the path it was registered with.
\<close>

theorem registered_service_keeps_path:
  assumes "if_scm I (ScmManager [CONNECT]) (w_ext w) = (Ok manager, x)"
    and "if_scm I (ScmOpen manager SERVICE_NAME [START, STOP, QUERY_STATUS]) x = (Ok service, y)"
  shows "ensure_running I path w = ensure_running I path' w
    \<and> w_trace (snd (ensure_running I path w)) = w_trace w @
          [EScm (ScmManager [CONNECT]), EScm (ScmOpen manager SERVICE_NAME [START, STOP, QUERY_STATUS]),
           EScm (ScmStop service), EScm (ScmStart service)]"
proof -
  let ?w = "w\<lparr>w_trace := w_trace w @ [EScm (ScmManager [CONNECT]),
    EScm (ScmOpen manager SERVICE_NAME [START, STOP, QUERY_STATUS])], w_ext := y\<rparr>"
  have run: "ensure_running I p w = seqM (scm I (ScmStop service)) (\<lambda>_.
      tryM (scm_or I ''start service: '' (ScmStart service)) (\<lambda>_. retM (Ok ()))) ?w" for p
    using assms by (simp add: ensure_running_def scm_or_run scm_run)
  have "w_trace (snd (ensure_running I path w)) = w_trace ?w @ [EScm (ScmStop service), EScm (ScmStart service)]"
    unfolding run
    by (cases "fst (if_scm I (ScmStart service) (snd (if_scm I (ScmStop service) y)))")
      (simp_all add: scm_run scm_or_run retM_apply)
  then show ?thesis using run by simp
qed

definition windows_world :: "unit world" where
  "windows_world =
     \<lparr>w_files = Map.empty, w_noread = Map.empty, w_nowrite = Map.empty, w_quota = None,
      w_env = Map.empty, w_stop = None, w_late = False, w_trace = [], w_ext = ()\<rparr>"

theorem registered_service_keeps_path_witness:
  "ensure_running base_iface ''C:/other/config.toml'' windows_world
     = ensure_running base_iface ''config.toml'' windows_world"
  using registered_service_keeps_path [of base_iface windows_world 1 "()" 1 "()"]
  by (simp add: base_iface_def)

text \<open>
  Installing makes its calls in a fixed order and stops at the first that fails: it opens the
  manager, creates the service named \<open>NexusAgent\<close> (started at boot, under the default account,
  running \<open>run-service --config\<close> with the given path), describes it and starts it. It succeeds
  only when the service has been created and started; a failing description does not matter.
\<close>

theorem install_registers_service:
  assumes "install I path w = (Done r, w')"
  shows "\<exists>manager exe service n.
    w_trace w' = w_trace w @ take n [EScm (ScmManager [CREATE_SERVICE]),
        EScm (ScmCreate manager (service_entry exe path) [CHANGE_CONFIG, START]),
        EScm (ScmDescribe service ''NexusID hybrid AD/DB sync agent''), EScm (ScmStart service)]
    \<and> n \<in> {1, 2, 4} \<and> (r = Ok () \<longrightarrow> n = 4 \<and> if_current_exe I = Ok exe)"
proof -
  let ?calls = "\<lambda>m exe sv. [EScm (ScmManager [CREATE_SERVICE]),
        EScm (ScmCreate m (service_entry exe path) [CHANGE_CONFIG, START]),
        EScm (ScmDescribe sv ''NexusID hybrid AD/DB sync agent''), EScm (ScmStart sv)]"
  consider (one) "w_trace w' = w_trace w @ [EScm (ScmManager [CREATE_SERVICE])]" "r \<noteq> Ok ()"
    | (two) m exe where "w_trace w' = w_trace w @ [EScm (ScmManager [CREATE_SERVICE]),
          EScm (ScmCreate m (service_entry exe path) [CHANGE_CONFIG, START])]" "r \<noteq> Ok ()"
    | (four) m exe sv where "w_trace w' = w_trace w @ ?calls m exe sv" "if_current_exe I = Ok exe"
    using assms unfolding install_def
    by (elim tryM_DoneE seqM_DoneE) (auto simp: scm_or_run scm_run liftM_def retM_def)
  then show ?thesis
  proof cases
    case one
    then show ?thesis by (intro exI [of _ 0] exI [of _ "[]"] exI [of _ 1]) simp
  next
    case (two m exe)
    then show ?thesis by (intro exI [of _ m] exI [of _ exe] exI [of _ 0] exI [of _ 2]) simp
  next
    case (four m exe sv)
    then show ?thesis by (intro exI [of _ m] exI [of _ exe] exI [of _ sv] exI [of _ 4]) simp
  qed
qed

theorem install_registers_service_witness:
  "\<exists>w'. install base_iface ''C:/nexus/config.toml'' windows_world = (Done (Ok ()), w')
     \<and> (\<exists>manager exe service. w_trace w' = [EScm (ScmManager [CREATE_SERVICE]),
          EScm (ScmCreate manager (service_entry exe ''C:/nexus/config.toml'') [CHANGE_CONFIG, START]),
          EScm (ScmDescribe service ''NexusID hybrid AD/DB sync agent''), EScm (ScmStart service)])"
proof -
  obtain w' where run: "install base_iface ''C:/nexus/config.toml'' windows_world = (Done (Ok ()), w')"
    by (simp add: install_def scm_or_run scm_run base_iface_def retM_apply)
  have "w_trace windows_world = []" by (simp add: windows_world_def)
  with install_registers_service [OF run] run show ?thesis by fastforce
qed

end
