(* ===== verification/Win_Process.thy ===== *)
theory Win_Process
  imports Runner_Props Win_Service
begin

text \<open>
  \<open>src/service.rs\<close>: the process that the Service Control Manager starts. Its threads are modelled
  twice. \<open>service_run\<close> follows the main thread from its start to its end: the worker is the
  runner, cut off when the stop order arrives (\<open>w_stop\<close>, counted in the worker's awaits). The step
  relation \<open>service_step\<close> is the protocol between the manager's controls, the main thread and the
  worker, in any interleaving.
\<close>

section \<open>The main thread\<close>

definition set_env :: "string \<Rightarrow> string \<Rightarrow> ('x world, unit) act" where
  "set_env v s w = (Done (), w\<lparr>w_env := (w_env w)(v \<mapsto> s)\<rparr>)"

definition status_of :: "service_state \<Rightarrow> service_status" where
  "status_of st = \<lparr>ss_state = st, ss_accepts_stop = (st = Running), ss_accepts_shutdown = (st = Running)\<rparr>"

definition set_status :: "'x iface \<Rightarrow> nat \<Rightarrow> service_state \<Rightarrow> ('x world, (string, nat) result) act" where
  "set_status I handle st = scm I (ScmStatus handle (status_of st))"

definition service_config_path :: "(string \<rightharpoonup> string) \<Rightarrow> string" where
  "service_config_path env =
     (case env_var env ''NEXUS_AGENT_CONFIG'' of Some p \<Rightarrow> p | None \<Rightarrow> ''config.toml'')"

text \<open>The worker thread, when the process ends at \<open>w_stop\<close>.\<close>

definition worker :: "'x iface \<Rightarrow> string \<Rightarrow> 'x world \<Rightarrow> 'x world option" where
  "worker I hostname w =
     (case load I (service_config_path (w_env w)) w of
        Ok cfg \<Rightarrow> cut_run I hostname cfg w
      | Err e \<Rightarrow> Some w)"

text \<open>
  How the process ends: by \<open>exit(0)\<close>, or because \<open>service_main\<close> and with it the dispatcher returned.
\<close>

datatype process_end = Exit_0 | Returned "(agent_error, unit) result"

text \<open>Waiting for the stop order (for ever if there is none), whatever the worker does.\<close>

definition await_stop :: "'x iface \<Rightarrow> string \<Rightarrow> 'x world \<Rightarrow> 'x world option" where
  "await_stop I hostname w = (if w_stop w = None then None else worker I hostname w)"

definition run_service :: "'x iface \<Rightarrow> string \<Rightarrow> 'x world \<Rightarrow> (process_end \<times> 'x world) option" where
  "run_service I hostname w =
     (case scm I (ScmRegister SERVICE_NAME) w of
        (Done (Ok handle), w1) \<Rightarrow>
          (case set_status I handle Running w1 of
             (Done (Ok _), w2) \<Rightarrow>
               map_option (\<lambda>w3. case set_status I handle Stop_pending w3 of
                    (Done (Ok _), w4) \<Rightarrow>
                      (case set_status I handle Stopped w4 of
                         (Done (Ok _), w5) \<Rightarrow> (Exit_0, w5)
                       | (_, w5) \<Rightarrow> (Returned (Ok ()), w5))
                  | (_, w4) \<Rightarrow> (Returned (Ok ()), w4))
                 (await_stop I hostname w2)
           | (_, w2) \<Rightarrow> Some (Returned (Ok ()), w2))
      | (_, w1) \<Rightarrow> Some (Returned (Ok ()), w1))"

text \<open>\<open>service::run\<close>: the dispatcher calls \<open>service_main\<close>, which only logs the error of \<open>run_service\<close>.\<close>

definition service_run :: "'x iface \<Rightarrow> string \<Rightarrow> string \<Rightarrow> 'x world \<Rightarrow> (process_end \<times> 'x world) option" where
  "service_run I hostname config_path w =
     (case seqM (set_env ''NEXUS_AGENT_CONFIG'' config_path)
             (\<lambda>_. scm_or I ''service dispatcher: '' (ScmDispatch SERVICE_NAME)) w of
        (Done (Ok _), w1) \<Rightarrow> run_service I hostname w1
      | (Done (Err e), w1) \<Rightarrow> Some (Returned (Err e), w1)
      | (_, w1) \<Rightarrow> Some (Returned (Ok ()), w1))"

section \<open>The protocol of the threads\<close>

datatype main_at = Begin | Registered | Announced | Waiting | Ordered | Pending | Halted | Exited | Gave_up

datatype worker_at = Not_started | Working | Ended

record service_proc =
  sp_main :: main_at
  sp_worker :: worker_at
  sp_orders :: nat
  sp_reported :: "service_status list"

definition initial_proc :: service_proc where
  "initial_proc = \<lparr>sp_main = Begin, sp_worker = Not_started, sp_orders = 0, sp_reported = []\<rparr>"

text \<open>The process is there, and its control handler is registered.\<close>

definition handles_controls :: "service_proc \<Rightarrow> bool" where
  "handles_controls s \<longleftrightarrow> sp_main s \<notin> {Begin, Exited, Gave_up}"

definition report :: "service_state \<Rightarrow> main_at \<Rightarrow> service_proc \<Rightarrow> service_proc" where
  "report st pc s = s\<lparr>sp_main := pc, sp_reported := sp_reported s @ [status_of st]\<rparr>"

text \<open>A step is labelled with the control that the manager sends, if it is one.\<close>

inductive service_step :: "service_proc \<Rightarrow> service_control option \<Rightarrow> service_proc \<Rightarrow> bool" where
  register: "sp_main s = Begin \<Longrightarrow> service_step s None (s\<lparr>sp_main := Registered\<rparr>)"
| announce: "sp_main s = Registered \<Longrightarrow> service_step s None (report Running Announced s)"
| spawn: "sp_main s = Announced \<Longrightarrow> service_step s None (s\<lparr>sp_main := Waiting, sp_worker := Working\<rparr>)"
| worker_ends: "sp_worker s = Working \<Longrightarrow> sp_main s \<notin> {Exited, Gave_up} \<Longrightarrow>
    service_step s None (s\<lparr>sp_worker := Ended\<rparr>)"
| control: "handles_controls s \<Longrightarrow>
    service_step s (Some c) (s\<lparr>sp_orders := sp_orders s + (if snd (control_handler c) then 1 else 0)\<rparr>)"
| receive: "sp_main s = Waiting \<Longrightarrow> sp_orders s = Suc n \<Longrightarrow>
    service_step s None (s\<lparr>sp_main := Ordered, sp_orders := n\<rparr>)"
| pend: "sp_main s = Ordered \<Longrightarrow> service_step s None (report Stop_pending Pending s)"
| stop: "sp_main s = Pending \<Longrightarrow> service_step s None (report Stopped Halted s)"
| exit: "sp_main s = Halted \<Longrightarrow> service_step s None (s\<lparr>sp_main := Exited\<rparr>)"
| give_up: "sp_main s \<in> {Begin, Registered, Ordered, Pending} \<Longrightarrow> service_step s None (s\<lparr>sp_main := Gave_up\<rparr>)"

inductive_cases own_stepE: "service_step s None t"
inductive_cases control_stepE: "service_step s (Some c) t"

text \<open>The states that a process reaches, with the controls it has been sent so far.\<close>

inductive reached :: "service_control list \<Rightarrow> service_proc \<Rightarrow> bool" where
  start: "reached [] initial_proc"
| own: "reached cs s \<Longrightarrow> service_step s None t \<Longrightarrow> reached cs t"
| sent: "reached cs s \<Longrightarrow> service_step s (Some c) t \<Longrightarrow> reached (cs @ [c]) t"

section \<open>What the process reports\<close>

definition stop_orders :: "service_control list \<Rightarrow> nat" where
  "stop_orders cs = length (filter (\<lambda>c. snd (control_handler c)) cs)"

lemma stop_orders_snoc: "stop_orders (cs @ [c]) = stop_orders cs + (if snd (control_handler c) then 1 else 0)"
  by (simp add: stop_orders_def)

lemma stop_orders_some: "0 < stop_orders cs \<Longrightarrow> Stop_control \<in> set cs \<or> Shutdown_control \<in> set cs"
proof -
  assume "0 < stop_orders cs"
  then obtain c where "c \<in> set cs" "snd (control_handler c)"
    by (auto simp: stop_orders_def filter_empty_conv)
  moreover from this(2) have "c = Stop_control \<or> c = Shutdown_control" by (cases c) simp_all
  ultimately show ?thesis by blast
qed

text \<open>How many of the three states have been reported, by where the main thread is.\<close>

fun reports :: "main_at \<Rightarrow> nat" where
  "reports Begin = 0" | "reports Registered = 0" | "reports Announced = 1" | "reports Waiting = 1"
| "reports Ordered = 1" | "reports Pending = 2" | "reports Halted = 3" | "reports Exited = 3"
| "reports Gave_up = 3"

definition lifecycle :: "service_status list" where
  "lifecycle = map status_of [Running, Stop_pending, Stopped]"

text \<open>The invariant of the process, for the controls it has been sent.\<close>

definition in_protocol :: "service_control list \<Rightarrow> service_proc \<Rightarrow> bool" where
  "in_protocol cs s \<longleftrightarrow>
     (if sp_main s = Gave_up then prefix (sp_reported s) lifecycle
        \<and> (1 < length (sp_reported s) \<or> sp_worker s \<noteq> Not_started \<longrightarrow> 0 < stop_orders cs)
      else sp_reported s = take (reports (sp_main s)) lifecycle
        \<and> (sp_worker s = Not_started \<longleftrightarrow> sp_main s \<in> {Begin, Registered, Announced})
        \<and> stop_orders cs = sp_orders s + (if sp_main s \<in> {Ordered, Pending, Halted, Exited} then 1 else 0))"

lemma own_step_in_protocol: "service_step s None t \<Longrightarrow> in_protocol cs s \<Longrightarrow> in_protocol cs t"
  by (erule own_stepE) (auto simp: in_protocol_def report_def lifecycle_def)

lemma control_in_protocol: "service_step s (Some c) t \<Longrightarrow> in_protocol cs s \<Longrightarrow> in_protocol (cs @ [c]) t"
  by (erule control_stepE) (auto simp: in_protocol_def handles_controls_def stop_orders_snoc)

lemma reached_in_protocol: "reached cs s \<Longrightarrow> in_protocol cs s"
proof (induction rule: reached.induct)
  case start
  show ?case by (simp add: in_protocol_def initial_proc_def stop_orders_def)
qed (auto intro: own_step_in_protocol control_in_protocol)

text \<open>
  C10. In any interleaving of the manager's controls, the worker and the main thread, the service
  reports the states running, stop pending and stopped in this order, each at most once, and says
  that it accepts a stop only while it runs. It reports more than running, and ends by \<open>exit\<close>, only
  after a stop or shutdown control; when it has exited it has reported all three.
\<close>

theorem service_reports_lifecycle:
  assumes "reached cs s"
  shows "prefix (sp_reported s) (map status_of [Running, Stop_pending, Stopped])
    \<and> (1 < length (sp_reported s) \<or> sp_main s = Exited \<longrightarrow> Stop_control \<in> set cs \<or> Shutdown_control \<in> set cs)
    \<and> (sp_main s = Exited \<longrightarrow> sp_reported s = map status_of [Running, Stop_pending, Stopped])
    \<and> (\<forall>r \<in> set (sp_reported s). ss_accepts_stop r \<longleftrightarrow> ss_state r = Running)"
proof -
  have i: "in_protocol cs s" using assms by (rule reached_in_protocol)
  have p: "prefix (sp_reported s) lifecycle"
    using i by (auto simp: in_protocol_def take_is_prefix split: if_splits)
  moreover have "0 < stop_orders cs" if "1 < length (sp_reported s) \<or> sp_main s = Exited"
    using i that by (cases "sp_main s") (auto simp: in_protocol_def lifecycle_def)
  moreover have "sp_reported s = lifecycle" if "sp_main s = Exited"
    using i that by (simp add: in_protocol_def lifecycle_def)
  moreover have "\<forall>r \<in> set lifecycle. ss_accepts_stop r \<longleftrightarrow> ss_state r = Running"
    by (simp add: lifecycle_def status_of_def)
  ultimately show ?thesis
    using stop_orders_some set_mono_prefix unfolding lifecycle_def by blast
qed

text \<open>
  C22. Nobody notices the end of the worker: when it has ended (because the configuration does not
  load, say) and no stop has been ordered, the manager has been told that the service is running,
  and no step of the process itself is left.
\<close>

theorem dead_worker_looks_running:
  assumes "reached cs s" "sp_worker s = Ended" "Stop_control \<notin> set cs" "Shutdown_control \<notin> set cs"
  shows "sp_main s = Waiting \<and> sp_reported s = [status_of Running] \<and> (\<nexists>t. service_step s None t)"
proof -
  have "stop_orders cs = 0" using stop_orders_some assms(3,4) by blast
  with reached_in_protocol [OF assms(1)] assms(2)
  have s: "sp_main s = Waiting" "sp_orders s = 0" "sp_reported s = [status_of Running]"
    by (cases "sp_main s"; auto simp: in_protocol_def lifecycle_def)+
  moreover have "\<not> service_step s None t" for t
    by (rule notI, erule own_stepE) (use s assms(2) in auto)
  ultimately show ?thesis by blast
qed

section \<open>A stop order is obeyed\<close>





section \<open>Instances\<close>

lemma reached_stop:
  "reached [Interrogate_control, Stop_control]
     \<lparr>sp_main = Exited, sp_worker = Working, sp_orders = 0, sp_reported = map status_of [Running, Stop_pending, Stopped]\<rparr>"
  (is "reached _ ?end")
proof -
  let ?s = "\<lambda>pc wk n rs. \<lparr>sp_main = pc, sp_worker = wk, sp_orders = n, sp_reported = map status_of rs\<rparr>"
  note steps = service_step.simps report_def handles_controls_def
  have "reached [] (?s Begin Not_started 0 [])" using reached.start by (simp add: initial_proc_def)
  then have "reached [] (?s Registered Not_started 0 [])"
    by (rule reached.own) (simp add: steps)
  then have "reached [] (?s Announced Not_started 0 [Running])"
    by (rule reached.own) (simp add: steps)
  then have "reached [] (?s Waiting Working 0 [Running])"
    by (rule reached.own) (simp add: steps)
  then have "reached ([] @ [Interrogate_control]) (?s Waiting Working 0 [Running])"
    by (rule reached.sent) (simp add: steps)
  then have "reached (([] @ [Interrogate_control]) @ [Stop_control]) (?s Waiting Working 1 [Running])"
    by (rule reached.sent) (simp add: steps)
  then have "reached [Interrogate_control, Stop_control] (?s Waiting Working 1 [Running])" by simp
  then have "reached [Interrogate_control, Stop_control] (?s Ordered Working 0 [Running])"
    by (rule reached.own) (simp add: steps)
  then have "reached [Interrogate_control, Stop_control] (?s Pending Working 0 [Running, Stop_pending])"
    by (rule reached.own) (simp add: steps)
  then have "reached [Interrogate_control, Stop_control] (?s Halted Working 0 [Running, Stop_pending, Stopped])"
    by (rule reached.own) (simp add: steps)
  then show ?thesis
    by (rule reached.own) (simp add: steps)
qed

theorem service_reports_lifecycle_witness:
  "\<exists>s. reached [Interrogate_control, Stop_control] s \<and> sp_main s = Exited
     \<and> sp_reported s = map status_of [Running, Stop_pending, Stopped]"
  using service_reports_lifecycle [OF reached_stop] reached_stop by fastforce

theorem dead_worker_looks_running_witness:
  "\<exists>s. reached [] s \<and> sp_worker s = Ended \<and> sp_reported s = [status_of Running]
     \<and> (\<nexists>t. service_step s None t)"
proof -
  let ?s = "\<lambda>pc wk n rs. \<lparr>sp_main = pc, sp_worker = wk, sp_orders = n, sp_reported = map status_of rs\<rparr>"
  note steps = service_step.simps report_def
  have "reached [] (?s Begin Not_started 0 [])" using reached.start by (simp add: initial_proc_def)
  then have "reached [] (?s Registered Not_started 0 [])"
    by (rule reached.own) (simp add: steps)
  then have "reached [] (?s Announced Not_started 0 [Running])"
    by (rule reached.own) (simp add: steps)
  then have "reached [] (?s Waiting Working 0 [Running])"
    by (rule reached.own) (simp add: steps)
  then have "reached [] (?s Waiting Ended 0 [Running])"
    by (rule reached.own) (simp add: steps)
  with dead_worker_looks_running [OF this] show ?thesis by fastforce
qed


end
