(* ===== verification/Win_Stop.thy ===== *)
theory Win_Stop
  imports Win_Process
begin

text \<open>
  How the Windows service's process (\<open>src/service.rs\<close>) ends. \<open>exit(0)\<close> does not wait for the worker: it
  may be killed at an await, or between two writes to its log. \<open>service_run\<close> gives the former (with the
  worker's calls before the last reports to the manager, as the two threads share no state); \<open>killed\<close>
  gives the files that the latter can leave.
\<close>

section \<open>The worker, cut off at an await\<close>

lemma load_validated: "load I p w = Ok c \<Longrightarrow> is_ok (validate c)"
  by (auto simp: load_def result_inv)

lemma load_same_files: "w_files w' = w_files w \<Longrightarrow> w_noread w' = w_noread w \<Longrightarrow> load I p w' = load I p w"
  using fs_open_same [of w' w p] by (simp add: load_def)

lemma cut_run_cases:
  assumes "cut_run I hostname c w = Some u"
  obtains (refused) "u = w"
    | (unlogged) al a s where "audit_open I (ag_audit_log (cf_agent c)) w = Ok al"
        "run_start I (mode_as_str (ag_mode (cf_agent c))) (al, w) = (a, s)" "u = snd s"
    | (served) al rt s y where "audit_open I (ag_audit_log (cf_agent c)) w = Ok al"
        "prepare I hostname c (w_env w) = Ok rt"
        "run_start I (mode_as_str (ag_mode (cf_agent c))) (al, w) = (Done (Ok ()), s)"
        "serve I rt s = Some y" "u = snd (snd y)"
proof (cases "audit_open I (ag_audit_log (cf_agent c)) w")
  case (Err e)
  with assms have "u = w" by (simp add: cut_run_def)
  then show ?thesis by (rule refused)
next
  case al: (Ok al)
  show ?thesis
  proof (cases "prepare I hostname c (w_env w)")
    case (Err e)
    with assms al have "u = w" by (simp add: cut_run_def)
    then show ?thesis by (rule refused)
  next
    case rt: (Ok rt)
    obtain a s where st: "run_start I (mode_as_str (ag_mode (cf_agent c))) (al, w) = (a, s)"
      by (metis prod.exhaust)
    show ?thesis
    proof (cases "a = Done (Ok ())")
      case True
      with assms al rt st obtain y where "serve I rt s = Some y" "u = snd (snd y)"
        by (auto simp: cut_run_def split: prod.splits)
      with al rt st True show ?thesis using served by blast
    next
      case False
      with assms al rt st have "u = snd s"
        by (cases a) (auto simp: cut_run_def split: result.splits)
      with al st show ?thesis using unlogged by blast
    qed
  qed
qed

context pass_frame
begin

lemma keeps_cut_run:
  assumes "cut_run I hostname c w = Some u"
    and "\<And>rt. prepare I hostname c (w_env w) = Ok rt \<Longrightarrow> rt_server rt = sc"
  shows "u = w \<or> (\<exists>al al'. audit_open I (ag_audit_log (cf_agent c)) w = Ok al \<and> Q (al, w) (al', u))"
  using assms(1)
proof (cases rule: cut_run_cases)
  case (unlogged al a s)
  with keepsD [OF keeps_run_start unlogged(2)] show ?thesis by (metis prod.collapse)
next
  case (served al rt s y)
  have "Q (al, w) s" "Q s (snd y)"
    using keepsD [OF keeps_run_start served(3)] keeps_serve [OF served(4) assms(2) [OF served(2)]] .
  then have "Q (al, w) (snd y)" by (rule frame_trans)
  with served show ?thesis by (metis prod.collapse)
qed simp

end

lemma cut_run_returns:
  assumes "is_ok (validate c)" "w_stop w = Some n"
  shows "\<exists>u. cut_run I hostname c w = Some u"
proof (cases "audit_open I (ag_audit_log (cf_agent c)) w")
  case (Ok al)
  show ?thesis
  proof (cases "prepare I hostname c (w_env w)")
    case rt: (Ok rt)
    obtain a s where st: "run_start I (mode_as_str (ag_mode (cf_agent c))) (al, w) = (Done a, s)"
      using run_start_Done by blast
    have "\<exists>k. w_stop (snd s) = Some k"
      using keepsD [OF stop.keeps_run_start st] assms(2) by (auto simp: snd_related_def counts_down_def)
    moreover have "is_ok (validate (rt_config rt))" using prepare_Ok(1) [OF rt] assms(1) by simp
    ultimately obtain y where "serve I rt s = Some y" using serve_stops by blast
    with Ok rt st show ?thesis by (cases a) (auto simp: cut_run_def)
  qed (simp add: cut_run_def Ok)
qed (simp add: cut_run_def)

text \<open>The calls to the manager leave the disk and the shutdown's moment alone.\<close>

lemma scm_Done: "is_ok (fst (if_scm I c (w_ext w))) \<Longrightarrow>
    \<exists>h w'. scm I c w = (Done (Ok h), w') \<and> disk_kept w w' \<and> w_stop w' = w_stop w"
  by (cases "fst (if_scm I c (w_ext w))") (simp_all add: scm_run disk_kept_def)

lemma run_service_ends:
  assumes "\<And>c x. is_ok (fst (if_scm I c x))" "w_stop w = Some n"
  shows "\<exists>w2 w3 u. run_service I hostname w = Some (Exit_0, u) \<and> disk_kept w w2 \<and> w_stop w2 = Some n
    \<and> worker I hostname w2 = Some w3 \<and> disk_kept w3 u"
proof -
  obtain h w1 where r: "scm I (ScmRegister SERVICE_NAME) w = (Done (Ok h), w1)" "disk_kept w w1" "w_stop w1 = w_stop w"
    using scm_Done [OF assms(1)] by blast
  obtain h2 w2 where s: "set_status I h Running w1 = (Done (Ok h2), w2)" "disk_kept w1 w2" "w_stop w2 = w_stop w1"
    unfolding set_status_def using scm_Done [OF assms(1)] by blast
  have "\<exists>w3. worker I hostname w2 = Some w3"
    unfolding worker_def
    using load_validated cut_run_returns r(3) s(3) assms(2) by (fastforce split: result.split)
  then obtain w3 where w3: "worker I hostname w2 = Some w3" by blast
  obtain h4 w4 where p: "set_status I h Stop_pending w3 = (Done (Ok h4), w4)" "disk_kept w3 w4"
    unfolding set_status_def using scm_Done [OF assms(1)] by blast
  obtain h5 w5 where q: "set_status I h Stopped w4 = (Done (Ok h5), w5)" "disk_kept w4 w5"
    unfolding set_status_def using scm_Done [OF assms(1)] by blast
  have "run_service I hostname w = Some (Exit_0, w5)"
    using r(1,3) s(1,3) assms(2) w3 p(1) q(1) by (simp add: run_service_def await_stop_def)
  moreover have "disk_kept w w2" "disk_kept w3 w5"
    using r(2) s(2) p(2) q(2) disk.frame_trans by blast+
  ultimately show ?thesis using w3 s(3) r(3) assms(2) by metis
qed

lemma worker_keeps_log:
  assumes "worker I hostname w = Some u" "load I (service_config_path (w_env w)) w = Ok c"
    and "json_laws I" "log_holds I al w rs" "al_path al = ag_audit_log (cf_agent c)" "w_quota w = None"
  shows "\<exists>al' ss. al_path al' = al_path al \<and> log_holds I al' u (rs @ ss)"
proof -
  have cut: "cut_run I hostname c w = Some u" using assms(1,2) by (simp add: worker_def)
  have op: "audit_open I (ag_audit_log (cf_agent c)) w = Ok al"
    using open_holds [OF assms(3,4)] assms(5) by simp
  obtain sc where sc: "\<And>rt. prepare I hostname c (w_env w) = Ok rt \<Longrightarrow> rt_server rt = sc"
    by (cases "prepare I hostname c (w_env w)") auto
  from log.keeps_cut_run [OF cut sc] op
  obtain al' where "u = w \<and> al' = al \<or> log_extends I (al, w) (al', u)" by auto
  then show ?thesis
    using assms(4,6) by (fastforce simp: log_extends_def intro: exI [of _ "[]"])
qed

lemma service_keeps_log:
  assumes "\<And>c x. is_ok (fst (if_scm I c x))" "w_stop w = Some n"
  shows "\<exists>u. service_run I hostname path w = Some (Exit_0, u)
    \<and> (\<forall>c al rs. load I path w = Ok c \<and> json_laws I \<and> log_holds I al w rs \<and> w_quota w = None
         \<and> al_path al = ag_audit_log (cf_agent c) \<longrightarrow>
         (\<exists>al' ss. al_path al' = al_path al \<and> log_holds I al' u (rs @ ss)))"
proof -
  let ?w = "w\<lparr>w_env := (w_env w)(''NEXUS_AGENT_CONFIG'' \<mapsto> path)\<rparr>"
  let ?w1 = "?w\<lparr>w_trace := w_trace w @ [EScm (ScmDispatch SERVICE_NAME)],
    w_ext := snd (if_scm I (ScmDispatch SERVICE_NAME) (w_ext w))\<rparr>"
  obtain h where "fst (if_scm I (ScmDispatch SERVICE_NAME) (w_ext w)) = Ok h"
    using assms(1) [of "ScmDispatch SERVICE_NAME" "w_ext w"] by (cases "fst (if_scm I (ScmDispatch SERVICE_NAME) (w_ext w))") auto
  then have run: "service_run I hostname path w = run_service I hostname ?w1"
    by (simp add: service_run_def seqM_def set_env_def scm_or_run)
  have "w_stop ?w1 = Some n" using assms(2) by simp
  from run_service_ends [OF assms(1) this] obtain w2 w3 u where
    u: "run_service I hostname ?w1 = Some (Exit_0, u)" and k: "disk_kept ?w1 w2" "disk_kept w3 u"
    and wk: "worker I hostname w2 = Some w3" by blast
  have path: "service_config_path (w_env w2) = path"
    using k(1) by (simp add: disk_kept_def service_config_path_def env_var_def)
  have "\<exists>al' ss. al_path al' = al_path al \<and> log_holds I al' u (rs @ ss)"
    if a: "load I path w = Ok c" "json_laws I" "log_holds I al w rs" "w_quota w = None"
      "al_path al = ag_audit_log (cf_agent c)" for c al rs
  proof -
    have "load I (service_config_path (w_env w2)) w2 = Ok c"
      unfolding path using load_same_files [of w2 w I path] k(1) a(1) by (simp add: disk_kept_def)
    moreover have "log_holds I al w2 rs" "w_quota w2 = None"
      using a(3,4) k(1) by (simp_all add: log_holds_def disk_kept_def)
    ultimately obtain al' ss where "al_path al' = al_path al" "log_holds I al' w3 (rs @ ss)"
      using worker_keeps_log [OF wk _ a(2) _ a(5)] by blast
    with log_holds_disk [OF k(2)] show ?thesis by blast
  qed
  with run u show ?thesis by auto
qed

section \<open>The worker, killed between two writes\<close>

text \<open>
  \<open>writeln!\<close> writes a line and its end one after the other. A process that ends between two writes
  leaves the first part of what the worker has written, up to the end of a line or up to before it.
\<close>

definition cut_between_writes :: "string \<Rightarrow> string \<Rightarrow> string \<Rightarrow> bool" where
  "cut_between_writes old new c \<longleftrightarrow> prefix old c \<and> prefix c new
     \<and> (c = old \<or> last c = NL \<or> prefix (c @ [NL]) new)"

definition file_text :: "'x world \<Rightarrow> string \<Rightarrow> string" where
  "file_text w p = (case w_files w p of Some c \<Rightarrow> c | None \<Rightarrow> [])"

definition killed :: "string \<Rightarrow> 'x world \<Rightarrow> 'x world \<Rightarrow> 'x world \<Rightarrow> bool" where
  "killed p w u v \<longleftrightarrow> v = u \<or>
     (\<exists>c. cut_between_writes (file_text w p) (file_text u p) c \<and> v = with_file u p c)"

lemma cut_lines_at_write:
  assumes "\<forall>l \<in> set ls. clean_line l" "prefix d (unlines ls)" "d = [] \<or> last d = NL \<or> prefix (d @ [NL]) (unlines ls)"
  shows "\<exists>k \<le> length ls. d = unlines (take k ls) \<or> d @ [NL] = unlines (take k ls)"
  using assms
proof (induction ls arbitrary: d)
  case Nil
  then show ?case by simp
next
  case (Cons l ls)
  have l: "NL \<notin> set l" using Cons.prems(1) by (simp add: clean_line_no_NL)
  from Cons.prems(2) consider (within) "prefix d l" | (after) d' where "d = l @ NL # d'" "prefix d' (unlines ls)"
    by (auto simp: prefix_append prefix_Cons)
  then show ?case
  proof cases
    case within
    then have "d = [] \<or> last d \<noteq> NL"
      using l by (metis last_in_set set_mono_prefix subsetD)
    with Cons.prems(3) have "d = [] \<or> prefix (d @ [NL]) (l @ NL # unlines ls)" by auto
    then have "d = [] \<or> d = l"
    proof
      assume p: "prefix (d @ [NL]) (l @ NL # unlines ls)"
      from within obtain e where e: "l = d @ e" by (auto simp: prefix_def)
      with p have "prefix [NL] (e @ NL # unlines ls)" by simp
      with l e have "e = []" by (cases e) auto
      with e show ?thesis by simp
    qed simp
    then show ?thesis
    proof
      assume "d = l"
      then show ?thesis by (intro exI [of _ "Suc 0"]) simp
    qed (intro exI [of _ 0], simp)
  next
    case (after d')
    then have "d' = [] \<or> last d' = NL \<or> prefix (d' @ [NL]) (unlines ls)"
      using Cons.prems(3) by (cases "d' = []") auto
    with Cons.IH [of d'] Cons.prems(1) after(2) obtain k where "k \<le> length ls"
      "d' = unlines (take k ls) \<or> d' @ [NL] = unlines (take k ls)" by auto
    then show ?thesis using after(1) by (intro exI [of _ "Suc k"]) auto
  qed
qed

text \<open>A log whose last line has no end yet reads as the log with it.\<close>

lemma buf_lines_unended:
  assumes "\<forall>l \<in> set ls. clean_line l" "c @ [NL] = unlines ls"
  shows "buf_lines c = ls"
proof -
  have "ls \<noteq> []" using assms(2) by auto
  then obtain ks l where ls: "ls = ks @ [l]" by (metis rev_exhaust)
  with assms(2) have c: "c = unlines ks @ l" by simp
  have l: "NL \<notin> set l" "l \<noteq> []" using assms(1) by (simp_all add: ls clean_lineD)
  have "buf_lines (unlines ks @ l) = ks @ buf_lines l"
    by (rule buf_lines_unlines_append) (use assms(1) in \<open>simp add: ls\<close>)
  then show ?thesis by (simp add: c ls buf_lines_last [OF l])
qed

lemma unended_log:
  assumes "json_laws I" "log_holds I al w rs" "c = log_file I rs \<or> c @ [NL] = log_file I rs" "v = with_file w (al_path al) c"
  shows "file_records I (al_path al) v = Ok rs" "fs_open v (al_path al) = Opened c" "buf_lines c = map (record_line I) rs"
proof -
  have clean: "\<forall>l \<in> set (map (record_line I) rs). clean_line l" by (auto intro: clean_record_line [OF assms(1)])
  with assms(3) show lines: "buf_lines c = map (record_line I) rs"
    using buf_lines_unlines [OF clean] buf_lines_unended [OF clean] by (auto simp: log_file_def)
  show op: "fs_open v (al_path al) = Opened c"
    using assms(2) by (simp add: assms(4) fs_open_def with_file_def log_holds_def)
  have "\<forall>r \<in> set rs. plain_record r" using assms(2) by (simp add: log_holds_def list_all_iff)
  then show "file_records I (al_path al) v = Ok rs"
    using parse_record_lines [OF assms(1)] by (simp add: file_records_def op lines)
qed

lemma log_holds_text: "log_holds I al w rs \<Longrightarrow> file_text w (al_path al) = log_file I rs"
  using log_holds_content [of I al w rs] by (simp add: file_text_def)

lemma log_holds_take:
  assumes "log_holds I al w (rs @ ss)" "v = with_file w (al_path al) (log_file I (rs @ take k ss))"
  shows "\<exists>al'. al_path al' = al_path al \<and> log_holds I al' v (rs @ take k ss)"
proof -
  have "chain I GENESIS 1 ((rs @ take k ss) @ drop k ss)" using assms(1) by (simp add: log_holds_def)
  then have "chain I GENESIS 1 (rs @ take k ss)" by (rule audit.walk_prefix)
  moreover have "\<forall>r \<in> set (rs @ take k ss). plain_record r"
    using assms(1) by (auto simp: log_holds_def list_all_iff dest: in_set_takeD)
  moreover have "w_noread w (al_path al) = None" using assms(1) by (simp add: log_holds_def)
  ultimately have "log_holds I \<lparr>al_path = al_path al, al_last_seq = of_nat (length (rs @ take k ss)),
      al_last_hash = end_hash (rs @ take k ss)\<rparr> v (rs @ take k ss)" (is "log_holds I ?al v _")
    unfolding assms(2) by (rule log_holds_file)
  then show ?thesis by (intro exI [of _ ?al]) simp
qed

lemma killed_verifies:
  assumes "json_laws I" "log_holds I al w rs" "log_holds I al' u (rs @ ss)" "al_path al' = al_path al"
    and "killed (al_path al) w u v"
  shows "\<exists>k. verify I (al_path al) v
    = Ok \<lparr>vr_records = of_nat (length (rs @ take k ss)), vr_ok = True, vr_broken_at = None\<rparr>"
proof (cases "v = u")
  case True
  with verify_holds [OF assms(1,3)] assms(4) show ?thesis by (intro exI [of _ "length ss"]) simp
next
  case False
  let ?line = "record_line I"
  from False assms(5) obtain c where cut: "cut_between_writes (file_text w (al_path al)) (file_text u (al_path al)) c"
    and v: "v = with_file u (al_path al) c" by (auto simp: killed_def)
  have old: "file_text w (al_path al) = log_file I rs" by (rule log_holds_text [OF assms(2)])
  have new: "file_text u (al_path al) = log_file I rs @ unlines (map ?line ss)"
    using log_holds_text [OF assms(3)] assms(4) by (simp add: log_file_def)
  from cut obtain d where c: "c = log_file I rs @ d" unfolding cut_between_writes_def old by (auto simp: prefix_def)
  have "prefix d (unlines (map ?line ss))" "d = [] \<or> last d = NL \<or> prefix (d @ [NL]) (unlines (map ?line ss))"
    using cut unfolding cut_between_writes_def old new c by (auto simp: last_append split: if_splits)
  moreover have "\<forall>l \<in> set (map ?line ss). clean_line l" by (auto intro: clean_record_line [OF assms(1)])
  ultimately obtain k where "d = unlines (take k (map ?line ss)) \<or> d @ [NL] = unlines (take k (map ?line ss))"
    using cut_lines_at_write by blast
  then have c': "c = log_file I (rs @ take k ss) \<or> c @ [NL] = log_file I (rs @ take k ss)"
    by (auto simp: c log_file_def take_map)
  obtain al2 where al2: "al_path al2 = al_path al'"
    "log_holds I al2 (with_file u (al_path al') (log_file I (rs @ take k ss))) (rs @ take k ss)"
    using log_holds_take [OF assms(3) refl] by blast
  have "file_records I (al_path al2) (with_file (with_file u (al_path al') (log_file I (rs @ take k ss))) (al_path al2) c)
      = Ok (rs @ take k ss)"
    by (rule unended_log(1) [OF assms(1) al2(2) c' refl])
  moreover have "with_file (with_file u (al_path al') (log_file I (rs @ take k ss))) (al_path al2) c = v"
    by (simp add: v with_file_def al2(1) assms(4))
  ultimately have "file_records I (al_path al) v = Ok (rs @ take k ss)" by (simp add: al2(1) assms(4))
  moreover have "chain I GENESIS 1 (rs @ take k ss)" using al2(2) by (simp add: log_holds_def)
  ultimately show ?thesis using verify_chain by blast
qed

text \<open>
  C13. When the manager's calls succeed, a stop order ends the Windows service's process with
  \<open>exit(0)\<close> at whatever moment it comes, and whether or not the configuration given to the service
  loads. The log of that configuration, if it was a chain, is accepted by \<open>verify\<close> afterwards with all
  its old records, also when the worker was killed between two of its writes.
\<close>

theorem service_process_stops:
  assumes "\<And>c x. is_ok (fst (if_scm I c x))" "w_stop w = Some n"
  shows "\<exists>u. service_run I hostname path w = Some (Exit_0, u)
    \<and> (\<forall>c al rs v. load I path w = Ok c \<and> json_laws I \<and> log_holds I al w rs \<and> w_quota w = None
         \<and> al_path al = ag_audit_log (cf_agent c) \<and> killed (al_path al) w u v \<longrightarrow>
         (\<exists>ss. verify I (al_path al) v
            = Ok \<lparr>vr_records = of_nat (length (rs @ ss)), vr_ok = True, vr_broken_at = None\<rparr>))"
proof -
  from service_keeps_log [OF assms, of hostname path] obtain u where u: "service_run I hostname path w = Some (Exit_0, u)"
    and kept: "\<forall>c al rs. load I path w = Ok c \<and> json_laws I \<and> log_holds I al w rs \<and> w_quota w = None
      \<and> al_path al = ag_audit_log (cf_agent c) \<longrightarrow> (\<exists>al' ss. al_path al' = al_path al \<and> log_holds I al' u (rs @ ss))"
    by blast
  have "\<exists>ss. verify I (al_path al) v = Ok \<lparr>vr_records = of_nat (length (rs @ ss)), vr_ok = True, vr_broken_at = None\<rparr>"
    if a: "load I path w = Ok c" "json_laws I" "log_holds I al w rs" "w_quota w = None"
      "al_path al = ag_audit_log (cf_agent c)" "killed (al_path al) w u v" for c al rs v
  proof -
    from kept a(1-5) obtain al' ss where "al_path al' = al_path al" "log_holds I al' u (rs @ ss)" by blast
    from killed_verifies [OF a(2,3) this(2,1) a(6)] show ?thesis by blast
  qed
  with u show ?thesis by blast
qed

text \<open>
  C37. Such a stop can cost the log. When the worker is killed after the line of a record and before
  the line's end, the log still verifies and the next start still opens it with the right head; but
  the first record that the next start appends continues on that line, and from then on neither
  \<open>verify\<close> nor another start can read the log. The hypothesis on the parser is that two objects in
  a row are no JSON document.
\<close>

theorem killed_append_breaks_log:
  assumes "json_laws I" "log_holds I al w (rs @ [r])" "w_nowrite w (al_path al) = None" "w_quota w = None"
    and "c @ [NL] = log_file I (rs @ [r])" "v = with_file w (al_path al) c"
    and "\<And>r s. if_json_of I (record_line I r @ record_line I s) = None"
  shows "cut_between_writes (log_file I rs) (log_file I (rs @ [r])) c
    \<and> audit_open I (al_path al) v = Ok al
    \<and> verify I (al_path al) v = Ok \<lparr>vr_records = of_nat (length (rs @ [r])), vr_ok = True, vr_broken_at = None\<rparr>
    \<and> (\<forall>ev dt res al2 w2. audit_append I ev dt (al, v) = (res, (al2, w2)) \<longrightarrow> (\<exists>r2. res = Done (Ok r2))
         \<and> \<not> is_ok (audit_open I (al_path al) w2) \<and> \<not> is_ok (verify I (al_path al) w2))"
proof -
  let ?n = "length (record_line I r)"
  have c: "c = log_file I rs @ record_line I r" using assms(5) by (simp add: log_file_def)
  then have torn: "c = torn_file I rs ?n r" by (simp add: torn_file_def)
  have pl: "\<forall>r \<in> set rs. plain_record r" and ch: "chain I GENESIS 1 rs"
    using assms(2) audit.walk_prefix [of I GENESIS 1 rs "[r]"] by (simp_all add: log_holds_def list_all_iff)
  have len: "0 < ?n" using clean_line_not_Nil [OF clean_record_line [OF assms(1)]] by simp
  note unended = unended_log [OF assms(1,2) disjI2 [OF assms(5)] assms(6)]
  have "cut_between_writes (log_file I rs) (log_file I (rs @ [r])) c"
    using assms(5) by (auto simp: cut_between_writes_def c log_file_def)
  moreover have "audit_open I (al_path al) v = Ok al"
  proof -
    from log_file_lines [OF assms(1,2)] obtain c0 where "fs_open w (al_path al) = Opened c0" "buf_lines c0 = buf_lines c"
      using unended(3) by auto
    with open_holds [OF assms(1,2)] unended(2) show ?thesis by (simp add: audit_open_def)
  qed
  moreover have "verify I (al_path al) v = Ok \<lparr>vr_records = of_nat (length (rs @ [r])), vr_ok = True, vr_broken_at = None\<rparr>"
    using verify_chain [OF unended(1)] assms(2) by (simp add: log_holds_def)
  moreover have "(\<exists>r2. res = Done (Ok r2)) \<and> \<not> is_ok (audit_open I (al_path al) w2) \<and> \<not> is_ok (verify I (al_path al) w2)"
    if "audit_append I ev dt (al, v) = (res, (al2, w2))" for ev dt res al2 w2
  proof -
    let ?s = "upcoming I al ev dt v"
    have "w_nowrite v (al_path al) = None" "w_quota v = None" using assms(3,4) by (simp_all add: assms(6) with_file_def)
    note next_append = append_ok_world [OF this, of I ev dt]
    have "w_files v (al_path al) = Some c" by (simp add: assms(6) with_file_def)
    with next_append that have ok: "res = Done (Ok ?s)" "w_noread w2 = w_noread v"
      and disk: "w_files w2 (al_path al) = Some (torn_file I rs ?n r @ record_line I ?s @ [NL])"
      by (simp_all add: torn)
    have "fs_open w2 (al_path al) = Opened (torn_file I rs ?n r @ record_line I ?s @ [NL])"
      using disk ok(2) assms(2) by (simp add: fs_open_def assms(6) with_file_def log_holds_def)
    moreover have "if_json_of I (take ?n (record_line I r) @ record_line I ?s) = None" using assms(7) by simp
    ultimately have "\<not> is_ok (audit_open I (al_path al) w2) \<and> \<not> is_ok (verify I (al_path al) w2)"
      by (intro torn_unreadable [OF assms(1) pl ch len order_refl])
    with ok(1) show ?thesis by simp
  qed
  ultimately show ?thesis by blast
qed

theorem killed_append_breaks_log_witness:
  "\<exists>al w r c v. log_holds sample_iface al w [r] \<and> c @ [NL] = log_file sample_iface [r] \<and> v = with_file w ''log'' c
    \<and> audit_open sample_iface ''log'' v = Ok al
    \<and> (\<exists>al2 w2. snd (audit_append sample_iface ''RUN_START'' JNull (al, v)) = (al2, w2)
         \<and> \<not> is_ok (audit_open sample_iface ''log'' w2) \<and> \<not> is_ok (verify sample_iface ''log'' w2))"
proof -
  let ?al = "fresh_log ''log''"
  have "writable sample_world (al_path ?al)" by (rule sample_writable)
  moreover have "plain_detail (json_obj [])" by (rule plain_detail_obj) simp
  ultimately have "\<exists>r al w. al_path al = ''log'' \<and> log_holds sample_iface al w [r] \<and> w_nowrite w ''log'' = None \<and> w_quota w = None"
    using append_run [OF sample_log_holds, of "json_obj []" "''RUN_STOP''"] by (fastforce simp: fresh_log_def sample_world_def)
  then
  obtain al w r where one: "al_path al = ''log''" "log_holds sample_iface al w [r]" "w_nowrite w ''log'' = None" "w_quota w = None"
    by blast
  have clean: "clean_line (record_line sample_iface r)" by (rule clean_record_line [OF sample_json_laws])
  obtain al2 w2 res where two: "audit_append sample_iface ''RUN_START'' JNull (al, with_file w ''log'' (record_line sample_iface r))
      = (res, (al2, w2))" by (metis prod.exhaust)
  have joined: "if_json_of sample_iface (record_line sample_iface r @ record_line sample_iface s) = None" for r s
    by (simp add: sample_iface_def base_iface_def record_line_def parse_two_trees)
  have c: "record_line sample_iface r @ [NL] = log_file sample_iface ([] @ [r])" by (simp add: log_file_def)
  have "log_holds sample_iface al w ([] @ [r])" using one(2) by simp
  from killed_append_breaks_log [OF sample_json_laws this _ one(4) c refl joined] one(1,3) two
  have "audit_open sample_iface ''log'' (with_file w ''log'' (record_line sample_iface r)) = Ok al
    \<and> \<not> is_ok (audit_open sample_iface ''log'' w2) \<and> \<not> is_ok (verify sample_iface ''log'' w2)" by auto
  with one(2) c two show ?thesis by fastforce
qed

theorem service_process_stops_witness:
  "\<exists>u ss. service_run sample_broker_iface ''host'' ''c.toml''
       ((service_world (Some 7))\<lparr>w_files := [''c.toml'' \<mapsto> show_tree sample_config_tree]\<rparr>) = Some (Exit_0, u)
     \<and> verify sample_broker_iface ''./nexus-agent.audit.jsonl'' u
        = Ok \<lparr>vr_records = of_nat (length (ss :: audit_record list)), vr_ok = True, vr_broken_at = None\<rparr>"
proof -
  let ?w = "(service_world (Some 7))\<lparr>w_files := [''c.toml'' \<mapsto> show_tree sample_config_tree]\<rparr>"
  have "is_ok (fst (if_scm sample_broker_iface c x))" for c x
    by (simp add: sample_broker_iface_def sample_dir_iface_def base_iface_def)
  moreover have "w_stop ?w = Some 7" by (simp add: service_world_def)
  moreover have "load sample_broker_iface ''c.toml'' ?w = Ok sample_config"
  proof -
    have "utf8_valid (show_tree sample_config_tree)"
      by (rule clean_line_valid) (rule show_tree_clean)
    moreover have "if_toml_of sample_broker_iface (show_tree sample_config_tree) = Some sample_config_tree"
      by (simp add: sample_broker_iface_def sample_dir_iface_def base_iface_def parse_show)
    ultimately show ?thesis
      by (simp add: load_def fs_open_def service_world_def world_on_def sample_config_read)
        (simp add: validate_def sample_config_def)
  qed
  moreover have "log_holds sample_broker_iface (fresh_log ''./nexus-agent.audit.jsonl'') ?w []" "w_quota ?w = None"
    by (simp_all add: log_holds_def fresh_log_def service_world_def world_on_def)
  moreover have "al_path (fresh_log ''./nexus-agent.audit.jsonl'') = ag_audit_log (cf_agent sample_config)"
    by (simp only: service_log(4) service_config(3))
  ultimately show ?thesis
    using service_process_stops [of sample_broker_iface ?w 7 "''host''" "''c.toml''"] service_log(2)
    unfolding service_config(3) [symmetric] by (fastforce simp: killed_def)
qed

end
