(* ===== verification/Command_Line.thy ===== *)
theory Command_Line
  imports Win_Stop
begin

text \<open>
  \<open>src/main.rs\<close>: the commands. The terminal is a console with the lines still to be read and the
  text printed so far (by \<open>println!\<close> and \<open>eprintln!\<close> alike); a command acts on the console and the world. Creating the directories above
  the configuration file is left out (its result is ignored, and a file that cannot be created is
  in \<open>w_nowrite\<close>), and so are the log messages themselves.
\<close>

section \<open>The console\<close>

record console =
  con_in :: "(string, string) result list"
  con_out :: string

type_synonym ('x, 'a) cli = "(console \<times> 'x world, 'a) act"

definition print :: "string \<Rightarrow> ('x, unit) cli" where
  "print s k = (Done (), ((fst k)\<lparr>con_out := con_out (fst k) @ s\<rparr>, snd k))"

definition println :: "string \<Rightarrow> ('x, unit) cli" where
  "println s = print (s @ [NL])"

text \<open>\<open>Stdin::read_line\<close>: a line with its end, nothing at the end of the input, or an error.\<close>

definition read_input :: "('x, (string, string) result) cli" where
  "read_input k =
     (case con_in (fst k) of
        [] \<Rightarrow> (Done (Ok []), k)
      | l # ls \<Rightarrow> (Done (bind_res l (\<lambda>l. if utf8_valid l then Ok l
                                        else Err ''stream did not contain valid UTF-8'')),
                  ((fst k)\<lparr>con_in := ls\<rparr>, snd k)))"

definition prompt :: "string \<Rightarrow> string \<Rightarrow> ('x, (agent_error, string) result) cli" where
  "prompt label deflt =
     seqM (print (if deflt = [] then label @ '': '' else label @ '' ['' @ deflt @ '']: '')) (\<lambda>_.
       seqM read_input (\<lambda>r.
         tryM (liftM (map_err (\<lambda>e. Config_err (''reading input: '' @ e)) r)) (\<lambda>line.
           retM (Ok (if trim line = [] then deflt else trim line)))))"

section \<open>Setup\<close>

record setup_values =
  su_base_url :: string
  su_agent_id :: string
  su_agent_token :: string
  su_mode :: string
  su_secret_key :: string
  su_ad_url :: string
  su_bind_dn :: string
  su_bind_password :: string
  su_base_dn :: string

definition effective_config_path :: "'x iface \<Rightarrow> string \<Rightarrow> string" where
  "effective_config_path I p =
     (if if_windows I \<and> p = ''config.toml''
      then ''C:'' @ [CHR 0x5C] @ ''ProgramData'' @ [CHR 0x5C] @ ''NexusAgent'' @ [CHR 0x5C] @ ''config.toml''
      else p)"

text \<open>A secret as it is kept in the file, and what the operator still has to do.\<close>

definition env_fallback :: "string \<Rightarrow> string \<Rightarrow> string \<times> string option" where
  "env_fallback env_name note = (''env:'' @ env_name, Some note)"

definition no_vault_note :: "string \<Rightarrow> string" where
  "no_vault_note env_name = ''set the env var '' @ env_name @ '' to the value on the host (kept off disk), ''
     @ ''or set NEXUS_AGENT_KEY and re-run setup to store it encrypted (enc:)''"

definition EM_DASH :: string where
  "EM_DASH = [CHR 0xE2, CHR 0x80, CHR 0x94]"

definition failed_note :: "string \<Rightarrow> string" where
  "failed_note env_name = ''encryption failed '' @ EM_DASH @ '' set the env var '' @ env_name
     @ '' on the host instead''"

definition harden_secret :: "'x iface \<Rightarrow> string \<Rightarrow> cipher option \<Rightarrow> string
    \<Rightarrow> ('x world, string \<times> string option) act" where
  "harden_secret I value vlt env_name =
     (let v = trim value
      in if v = [] \<or> starts_with ''env:'' v \<or> starts_with ''enc:'' v then retM (v, None)
         else case vlt of
           Some c \<Rightarrow> seqM (encrypt_serialized I c v) (\<lambda>r. case r of
               Ok enc \<Rightarrow> retM (''enc:'' @ enc, None)
             | Err _ \<Rightarrow> retM (env_fallback env_name (failed_note env_name)))
         | None \<Rightarrow> retM (env_fallback env_name (no_vault_note env_name)))"

definition toml_string :: "string \<Rightarrow> string \<Rightarrow> string" where
  "toml_string key v = key @ '' = '' @ [CHR 0x22] @ v @ [CHR 0x22, NL]"

definition setup_toml :: "setup_values \<Rightarrow> string \<Rightarrow> string \<Rightarrow> string" where
  "setup_toml v secret_key bind_password =
     ''[agent]'' @ [NL] @ toml_string ''id'' (su_agent_id v) @ toml_string ''mode'' (su_mode v)
     @ ''poll_interval_secs = 30'' @ [NL] @ toml_string ''audit_log'' ''./nexus-agent.audit.jsonl'' @ [NL]
     @ ''[server]'' @ [NL] @ toml_string ''base_url'' (su_base_url v)
     @ toml_string ''agent_token'' (su_agent_token v) @ toml_string ''secret_key'' secret_key
     @ ''verify_tls = true'' @ [NL, NL]
     @ ''[ad]'' @ [NL] @ toml_string ''url'' (su_ad_url v) @ toml_string ''bind_dn'' (su_bind_dn v)
     @ toml_string ''bind_password'' bind_password @ toml_string ''base_dn'' (su_base_dn v)
     @ ''use_kerberos = false'' @ [NL] @ ''password_writeback = true'' @ [NL]"

definition setup_notes :: "string option \<Rightarrow> string option \<Rightarrow> string list" where
  "setup_notes n1 n2 = (case n1 of Some n \<Rightarrow> [''secret_key: '' @ n] | None \<Rightarrow> [])
     @ (case n2 of Some n \<Rightarrow> [''bind_password: '' @ n] | None \<Rightarrow> [])"

fun print_all :: "string list \<Rightarrow> ('x, unit) cli" where
  "print_all [] = retM ()"
| "print_all (n # ns) = seqM (println (''[action] '' @ n)) (\<lambda>_. print_all ns)"

definition write_config :: "string \<Rightarrow> string \<Rightarrow> ('x world, (agent_error, unit) result) act" where
  "write_config path s =
     seqM (fs_write path s) (\<lambda>r. liftM (map_err (\<lambda>e. Config_err (''writing '' @ path @ '': '' @ e)) r))"

text \<open>Reading the file back and asking the broker whether it knows the agent.\<close>

definition ask_broker :: "'x iface \<Rightarrow> (string \<rightharpoonup> string) \<Rightarrow> config \<Rightarrow> setup_values
    \<Rightarrow> ('x, (agent_error, unit) result) cli" where
  "ask_broker I env cfg v =
     tryM (liftM (resolve I env (sv_agent_token (cf_server cfg)))) (\<lambda>token.
       tryM (liftM (server_new I (sv_base_url (cf_server cfg)) token (ag_id (cf_agent cfg))
               (sv_verify_tls (cf_server cfg)))) (\<lambda>client.
         seqM (onSnd (fetch_config I client)) (\<lambda>r.
           seqM (println (case r of
               Ok _ \<Rightarrow> ''[ok] reached '' @ su_base_url v @ '' '' @ EM_DASH @ '' agent '' @ [CHR 0x27]
                       @ su_agent_id v @ [CHR 0x27] @ '' is registered and authorized''
             | Err e \<Rightarrow> ''[warn] config written, but the broker check failed: '' @ error_str e @ [NL]
                       @ ''       register the agent in the SyncAgent UI, then run '' @ [CHR 0x27]
                       @ ''nexus-agent run'' @ [CHR 0x27])) (\<lambda>_. retM (Ok ())))))"

definition check_config :: "'x iface \<Rightarrow> string \<Rightarrow> setup_values \<Rightarrow> ('x, (agent_error, unit) result) cli" where
  "check_config I path v k =
     (case load I path (snd k) of
        Ok cfg \<Rightarrow> ask_broker I (w_env (snd k)) cfg v k
      | Err e \<Rightarrow> seqM (println (''[warn] config written but did not validate: '' @ error_str e))
                  (\<lambda>_. retM (Ok ())) k)"

text \<open>What setup does last: start the service on Windows, or say how to run the agent.\<close>

definition start_service :: "'x iface \<Rightarrow> string \<Rightarrow> bool \<Rightarrow> ('x, (agent_error, unit) result) cli" where
  "start_service I path interactive =
     (let abs = (case if_canonicalize I path of Some p \<Rightarrow> p | None \<Rightarrow> path)
      in tryM (if interactive
               then tryM (prompt ''Start the NexusAgent Windows Service now (runs on boot; needs an elevated prompt)? [Y/n]'' ''y'')
                      (\<lambda>a. retM (Ok (\<not> eq_ignore_ascii_case a ''n'')))
               else retM (Ok True)) (\<lambda>start.
           seqM (if start
                 then seqM (onSnd (ensure_running I abs)) (\<lambda>r. println (case r of
                     Ok _ \<Rightarrow> ''[ok] Windows Service '' @ [CHR 0x27] @ ''NexusAgent'' @ [CHR 0x27] @ '' is running''
                   | Err e \<Rightarrow> ''[warn] could not start the service ('' @ error_str e @ '')'' @ [NL]
                       @ ''       run an elevated prompt, then:  nexus-agent service install -c ''
                       @ [CHR 0x22] @ abs @ [CHR 0x22]))
                 else println (''Start it later (elevated):  nexus-agent service install -c ''
                       @ [CHR 0x22] @ abs @ [CHR 0x22]))
             (\<lambda>_. retM (Ok ()))))"

definition setup_end :: "'x iface \<Rightarrow> string \<Rightarrow> bool \<Rightarrow> ('x, (agent_error, unit) result) cli" where
  "setup_end I path interactive =
     (if if_windows I then start_service I path interactive
      else seqM (println ([NL] @ ''Next: nexus-agent run -c '' @ path @ [NL])) (\<lambda>_. retM (Ok ())))"

definition finalize_setup :: "'x iface \<Rightarrow> string \<Rightarrow> setup_values \<Rightarrow> bool
    \<Rightarrow> ('x, (agent_error, unit) result) cli" where
  "finalize_setup I config_path v interactive k =
     (let path = effective_config_path I config_path
      in tryM (liftM (vault I (w_env (snd k)))) (\<lambda>vlt.
           seqM (onSnd (harden_secret I (su_secret_key v) vlt ''SECRET_ENCRYPTION_KEY'')) (\<lambda>(secret_key, n1).
             seqM (onSnd (harden_secret I (su_bind_password v) vlt ''NEXUS_AGENT_BIND_PASSWORD''))
               (\<lambda>(bind_password, n2).
                 tryM (onSnd (write_config path (setup_toml v secret_key bind_password))) (\<lambda>_.
                   seqM (println ([NL] @ ''[ok] wrote '' @ path @ '' (no plaintext secrets)'')) (\<lambda>_.
                     seqM (print_all (setup_notes n1 n2)) (\<lambda>_.
                       tryM (check_config I path v) (\<lambda>_. setup_end I path interactive)))))))
        k)"

definition setup_wizard :: "'x iface \<Rightarrow> string \<Rightarrow> ('x, (agent_error, unit) result) cli" where
  "setup_wizard I config_path =
     seqM (println ([NL] @ ''nexusID sync agent '' @ EM_DASH @ '' setup'' @ [NL])) (\<lambda>_.
     tryM (prompt ''IDP / broker URL'' ''https://demo.nexusid.ai'') (\<lambda>base_url.
     tryM (prompt ''Agent id'' ''dc-01-agent'') (\<lambda>agent_id.
     tryM (prompt (''Agent token (from '' @ [CHR 0x27] @ ''Register agent'' @ [CHR 0x27] @ '')'') []) (\<lambda>agent_token.
     tryM (prompt ''Mode (ad/db)'' ''ad'') (\<lambda>mode.
     tryM (prompt (''Secret key '' @ EM_DASH @ '' env:, enc:, or the per-agent key from the downloaded config'')
             ''env:SECRET_ENCRYPTION_KEY'') (\<lambda>secret_key.
     tryM (prompt ''AD url (the broker can override this live)'' ''ldaps://dc01.corp.example.com:636'') (\<lambda>ad_url.
     tryM (prompt ''AD bind DN'' ''CN=svc-nexus,OU=Service Accounts,DC=corp,DC=example,DC=com'') (\<lambda>bind_dn.
     tryM (prompt ''AD bind password'' []) (\<lambda>bind_password.
     tryM (prompt ''AD base DN'' ''DC=corp,DC=example,DC=com'') (\<lambda>base_dn.
       finalize_setup I config_path
         \<lparr>su_base_url = base_url, su_agent_id = agent_id, su_agent_token = agent_token, su_mode = mode,
          su_secret_key = secret_key, su_ad_url = ad_url, su_bind_dn = bind_dn,
          su_bind_password = bind_password, su_base_dn = base_dn\<rparr> True))))))))))"

definition setup_noninteractive :: "'x iface \<Rightarrow> string \<Rightarrow> setup_values \<Rightarrow> ('x, (agent_error, unit) result) cli" where
  "setup_noninteractive I config_path v = finalize_setup I config_path v False"

section \<open>The commands\<close>

text \<open>The options of \<open>setup\<close>, and its values without a dialogue.\<close>

record setup_flags =
  fl_config :: string
  fl_non_interactive :: bool
  fl_idp_url :: "string option"
  fl_agent_id :: "string option"
  fl_token :: "string option"
  fl_mode :: "string option"
  fl_secret_key :: "string option"
  fl_ad_url :: "string option"
  fl_bind_dn :: "string option"
  fl_bind_password :: "string option"
  fl_base_dn :: "string option"

definition unwrap_or :: "'a \<Rightarrow> 'a option \<Rightarrow> 'a" where
  "unwrap_or d v = (case v of Some x \<Rightarrow> x | None \<Rightarrow> d)"

definition flag_values :: "setup_flags \<Rightarrow> setup_values" where
  "flag_values f =
     \<lparr>su_base_url = unwrap_or [] (fl_idp_url f), su_agent_id = unwrap_or ''dc-01-agent'' (fl_agent_id f),
      su_agent_token = unwrap_or [] (fl_token f), su_mode = unwrap_or ''ad'' (fl_mode f),
      su_secret_key = unwrap_or ''env:SECRET_ENCRYPTION_KEY'' (fl_secret_key f),
      su_ad_url = unwrap_or [] (fl_ad_url f), su_bind_dn = unwrap_or [] (fl_bind_dn f),
      su_bind_password = unwrap_or [] (fl_bind_password f), su_base_dn = unwrap_or [] (fl_base_dn f)\<rparr>"

datatype service_action = Install string | Uninstall

datatype command = Run_cmd string
  | Setup_cmd setup_flags
  | Service_cmd service_action
  | Run_service string
  | Verify_log string
  | Status_cmd string
  | Gen_key
  | Encrypt_secret string

definition service_command :: "'x iface \<Rightarrow> service_action \<Rightarrow> ('x, (agent_error, unit) result) cli" where
  "service_command I action =
     (if \<not> if_windows I
      then retM (Err (Config_err (''the '' @ [CHR 0x27] @ ''service'' @ [CHR 0x27] @ '' command is Windows-only'')))
      else case action of
        Install config \<Rightarrow>
          (let abs = (case if_canonicalize I config of Some p \<Rightarrow> p | None \<Rightarrow> config)
           in tryM (onSnd (install I abs)) (\<lambda>_.
                seqM (println (''Installed + started Windows Service '' @ [CHR 0x27] @ ''NexusAgent'' @ [CHR 0x27]
                   @ '' (config: '' @ abs @ '')'')) (\<lambda>_. retM (Ok ()))))
      | Uninstall \<Rightarrow>
          tryM (onSnd (uninstall I)) (\<lambda>_.
            seqM (println (''Removed Windows Service '' @ [CHR 0x27] @ ''NexusAgent'' @ [CHR 0x27]))
              (\<lambda>_. retM (Ok ()))))"

definition verify_command :: "'x iface \<Rightarrow> string \<Rightarrow> ('x, (agent_error, unit) result) cli" where
  "verify_command I path k =
     tryM (liftM (verify I path (snd k))) (\<lambda>report.
       seqM (println (''audit log: '' @ dec (unat (vr_records report)) @ '' record(s); integrity ''
               @ (if vr_ok report then ''OK'' else ''BROKEN'')
               @ (case vr_broken_at report of Some s \<Rightarrow> '' at seq '' @ dec (unat s) | None \<Rightarrow> []))) (\<lambda>_.
         if \<not> vr_ok report then retM (Err (Audit_err ''integrity check failed'')) else retM (Ok ()))) k"

definition status_command :: "'x iface \<Rightarrow> string \<Rightarrow> ('x, (agent_error, unit) result) cli" where
  "status_command I config k =
     tryM (liftM (load I config (snd k))) (\<lambda>cfg.
       tryM (liftM (verify I (ag_audit_log (cf_agent cfg)) (snd k))) (\<lambda>report.
         seqM (println (''agent id   : '' @ ag_id (cf_agent cfg))) (\<lambda>_.
           seqM (println (''mode       : '' @ mode_as_str (ag_mode (cf_agent cfg)))) (\<lambda>_.
             seqM (println (''server     : '' @ sv_base_url (cf_server cfg))) (\<lambda>_.
               seqM (println (''audit log  : '' @ dec (unat (vr_records report)) @ '' record(s), integrity ''
                       @ (if vr_ok report then ''OK'' else ''BROKEN''))) (\<lambda>_. retM (Ok ()))))))) k"

definition gen_key_command :: "'x iface \<Rightarrow> ('x, (agent_error, unit) result) cli" where
  "gen_key_command I = seqM (onSnd (generate_base64_key I)) (\<lambda>key. seqM (println key) (\<lambda>_. retM (Ok ())))"

definition encrypt_command :: "'x iface \<Rightarrow> string \<Rightarrow> ('x, (agent_error, unit) result) cli" where
  "encrypt_command I secret k =
     tryM (liftM (bind_res (vault I (w_env (snd k)))
         (ok_or (Config_err ''set NEXUS_AGENT_KEY (base64 32 bytes) first'')))) (\<lambda>c.
       tryM (onSnd (encrypt_serialized I c secret)) (\<lambda>enc.
         seqM (println (''enc:'' @ enc)) (\<lambda>_. retM (Ok ())))) k"

definition run_command :: "'x iface \<Rightarrow> string \<Rightarrow> string \<Rightarrow> console \<times> 'x world
    \<Rightarrow> ((agent_error, unit) result exec \<times> (console \<times> 'x world)) option" where
  "run_command I hostname config k =
     (case load I config (snd k) of
        Err e \<Rightarrow> Some (Done (Err e), k)
      | Ok cfg \<Rightarrow> map_option (\<lambda>(r, w). (r, (fst k, w))) (run I hostname cfg (snd k)))"

text \<open>\<open>exit(0)\<close> ends the process as a return without an error does: silently and with code 0.\<close>

definition run_service_command :: "'x iface \<Rightarrow> string \<Rightarrow> string \<Rightarrow> console \<times> 'x world
    \<Rightarrow> ((agent_error, unit) result exec \<times> (console \<times> 'x world)) option" where
  "run_service_command I hostname config k =
     (if if_windows I
      then map_option (\<lambda>(e, w). (Done (case e of Exit_0 \<Rightarrow> Ok () | Returned r \<Rightarrow> r), (fst k, w)))
             (service_run I hostname config (snd k))
      else Some (Done (Err (Config_err ''run-service is Windows-only'')), k))"

definition dispatch :: "'x iface \<Rightarrow> string \<Rightarrow> command \<Rightarrow> console \<times> 'x world
    \<Rightarrow> ((agent_error, unit) result exec \<times> (console \<times> 'x world)) option" where
  "dispatch I hostname cmd k =
     (case cmd of
        Run_cmd config \<Rightarrow> run_command I hostname config k
      | Setup_cmd f \<Rightarrow> Some (if fl_non_interactive f then setup_noninteractive I (fl_config f) (flag_values f) k
                            else setup_wizard I (fl_config f) k)
      | Service_cmd a \<Rightarrow> Some (service_command I a k)
      | Run_service config \<Rightarrow> run_service_command I hostname config k
      | Verify_log path \<Rightarrow> Some (verify_command I path k)
      | Status_cmd config \<Rightarrow> Some (status_command I config k)
      | Gen_key \<Rightarrow> Some (gen_key_command I k)
      | Encrypt_secret secret \<Rightarrow> Some (encrypt_command I secret k))"

section \<open>The process\<close>

definition default_log_dir :: "'x iface \<Rightarrow> (string \<rightharpoonup> string) \<Rightarrow> string" where
  "default_log_dir I env =
     (case env_var env ''NEXUS_AGENT_LOG_DIR'' of
        Some d \<Rightarrow> d
      | None \<Rightarrow> if if_windows I
          then ''C:'' @ [CHR 0x5C] @ ''ProgramData'' @ [CHR 0x5C] @ ''NexusAgent'' @ [CHR 0x5C] @ ''logs''
          else ''/var/lib/nexus-agent/logs'')"

definition main_separator :: "'x iface \<Rightarrow> string" where
  "main_separator I = (if if_windows I then [CHR 0x5C] else ''/'')"

definition start_logging :: "'x iface \<Rightarrow> ('x, unit) cli" where
  "start_logging I k =
     (let dir = default_log_dir I (w_env (snd k))
      in seqM (onSnd (callM (if_create_dir_all I dir))) (\<lambda>r. println (case r of
             Ok _ \<Rightarrow> ''[nexus-agent] logging to '' @ dir @ main_separator I @ ''nexus-agent.log''
           | Err e \<Rightarrow> ''[nexus-agent] file logging disabled ('' @ e @ ''); stdout only'')) k)"

text \<open>
  The process's exit code; \<open>Aborted\<close> stands for the end by a panic, and for a command other than \<open>run\<close>
  that a signal kills while it waits.
\<close>

datatype exit_code = SUCCESS | FAILURE | Aborted

definition main_exit :: "(agent_error, unit) result \<Rightarrow> ('x, exit_code) cli" where
  "main_exit r = (case r of Ok _ \<Rightarrow> retM SUCCESS
     | Err e \<Rightarrow> seqM (println (''error: '' @ error_str e)) (\<lambda>_. retM FAILURE))"

definition main :: "'x iface \<Rightarrow> string \<Rightarrow> command \<Rightarrow> console \<times> 'x world
    \<Rightarrow> (exit_code \<times> (console \<times> 'x world)) option" where
  "main I hostname cmd k =
     map_option (\<lambda>(r, k'). case r of
         Done a \<Rightarrow> (case main_exit a k' of (Done c, k'') \<Rightarrow> (c, k'') | (_, k'') \<Rightarrow> (Aborted, k''))
       | _ \<Rightarrow> (Aborted, k'))
       (dispatch I hostname cmd (snd (start_logging I k)))"

end
