(* ===== verification/Command_Props.thy ===== *)
theory Command_Props
  imports Command_Line
begin

text \<open>
  What setup does with secrets, and what configuration it leaves behind.
\<close>

section \<open>Hardened secrets\<close>

text \<open>A value that is no secret: nothing, or a reference to where the secret is.\<close>

definition reference :: "string \<Rightarrow> bool" where
  "reference s \<longleftrightarrow> s = [] \<or> starts_with ''env:'' s \<or> starts_with ''enc:'' s"

lemma reference_simps: "reference []" "reference (''env:'' @ s)" "reference (''enc:'' @ s)"
  by (simp_all add: reference_def starts_with_def)

lemma harden_cases:
  "harden_secret I value vlt env_name w =
     (if reference (trim value) then (Done (trim value, None), w)
      else case vlt of
        None \<Rightarrow> (Done (''env:'' @ env_name, Some (no_vault_note env_name)), w)
      | Some c \<Rightarrow> (case encrypt_serialized I c (trim value) w of
            (Done (Ok enc), w') \<Rightarrow> (Done (''enc:'' @ enc, None), w')
          | (Done (Err e), w') \<Rightarrow> (Done (''env:'' @ env_name, Some (failed_note env_name)), w')
          | (Panicked p, w') \<Rightarrow> (Panicked p, w') | (Dropped, w') \<Rightarrow> (Dropped, w')))"
  by (auto simp: harden_secret_def reference_def Let_def retM_def env_fallback_def seqM_def
      split: option.split prod.split exec.split result.split)

lemma harden_Done:
  "\<exists>s n w'. harden_secret I value vlt env_name w = (Done (s, n), w') \<and> reference s \<and> disk_kept w w'
    \<and> w_stop w' = w_stop w"
  unfolding harden_cases
  by (auto simp: reference_simps disk_kept_def encrypt_run Let_def split: option.split simp del: append.simps)


section \<open>The file that setup writes\<close>

definition on_world :: "('x world \<Rightarrow> 'x world \<Rightarrow> bool) \<Rightarrow> console \<times> 'x world \<Rightarrow> console \<times> 'x world \<Rightarrow> bool" where
  "on_world R k k' \<longleftrightarrow> R (snd k) (snd k')"

interpretation cli: frame "on_world disk_kept"
  by unfold_locales (auto simp: on_world_def intro: disk.frame_refl disk.frame_trans)

lemma keeps_console:
  "keeps (on_world disk_kept) (print s)" "keeps (on_world disk_kept) (println s)"
  "keeps (on_world disk_kept) read_input"
  by (auto simp: keeps_def on_world_def print_def println_def read_input_def disk.frame_refl split: list.split)

lemma keeps_last_line: "keeps (on_world disk_kept) (seqM (println s) (\<lambda>_. retM a))"
  by (intro cli.keeps_seqM keeps_console cli.keeps_retM)

lemma keeps_cli_world: "keeps disk_kept m \<Longrightarrow> keeps (on_world disk_kept) (onSnd m)"
  by (erule keeps_onSnd) (simp add: on_world_def)

lemma keeps_scm: "keeps disk_kept (install I p)" "keeps disk_kept (ensure_running I p)"
proof -
  have s: "keeps disk_kept (scm I c)" "keeps disk_kept (scm_or I what c)" for what c
    unfolding scm_or_def scm_def
    by (auto intro!: disk.keeps_seqM disk.keeps_blocking disk.keeps_liftM)
  show "keeps disk_kept (install I p)" for p
    unfolding install_def
    by (auto intro!: disk.keeps_tryM disk.keeps_seqM disk.keeps_liftM disk.keeps_retM s)
  then show "keeps disk_kept (ensure_running I p)"
    unfolding ensure_running_def
    by (auto intro!: disk.keeps_tryM disk.keeps_seqM disk.keeps_liftM disk.keeps_retM s split: result.split)
qed

lemma keeps_setup_rest:
  "keeps (on_world disk_kept) (print_all ns)" "keeps (on_world disk_kept) (check_config I path v)"
  "keeps (on_world disk_kept) (setup_end I path interactive)"
proof -
  show "keeps (on_world disk_kept) (print_all ns)"
    by (induction ns) (auto intro!: cli.keeps_seqM cli.keeps_retM keeps_console)
  have "keeps (on_world disk_kept) (ask_broker I env cfg v)" for env cfg
    unfolding ask_broker_def
    by (intro cli.keeps_tryM cli.keeps_liftM cli.keeps_seqM keeps_cli_world disk.keeps_server
        keeps_console cli.keeps_retM TrueI)
  then show "keeps (on_world disk_kept) (check_config I path v)"
    by (simp add: keeps_def check_config_def keeps_at [OF keeps_last_line] del: append.simps split: result.split)
  have "keeps (on_world disk_kept) (prompt label d)" for label d
    unfolding prompt_def
    by (intro cli.keeps_seqM cli.keeps_tryM cli.keeps_liftM cli.keeps_retM keeps_console)
  then show "keeps (on_world disk_kept) (setup_end I path interactive)"
    unfolding setup_end_def start_service_def Let_def
    by (auto intro!: cli.keeps_seqM cli.keeps_tryM cli.keeps_liftM cli.keeps_retM keeps_console
        keeps_cli_world keeps_scm)
qed

lemma write_config_run:
  "w_nowrite w p = None \<Longrightarrow> w_quota w = None \<Longrightarrow>
   write_config p s w = (Done (Ok ()), w\<lparr>w_files := (w_files w)(p \<mapsto> s)\<rparr>)"
  by (simp add: write_config_def fs_write_def seqM_def liftM_def retM_def)

lemma setup_file:
  assumes "vault I (w_env w) = Ok vlt" "w_nowrite w (effective_config_path I config_path) = None"
    and "w_quota w = None" "finalize_setup I config_path v interactive (c, w) = (r, k)"
  shows "\<exists>sk n1 w1 bp n2 w2. harden_secret I (su_secret_key v) vlt ''SECRET_ENCRYPTION_KEY'' w = (Done (sk, n1), w1)
    \<and> harden_secret I (su_bind_password v) vlt ''NEXUS_AGENT_BIND_PASSWORD'' w1 = (Done (bp, n2), w2)
    \<and> w_files (snd k) (effective_config_path I config_path) = Some (setup_toml v sk bp)"
proof -
  let ?p = "effective_config_path I config_path"
  obtain sk n1 w1 where h1: "harden_secret I (su_secret_key v) vlt ''SECRET_ENCRYPTION_KEY'' w
      = (Done (sk, n1), w1)" and d1: "disk_kept w w1"
    using harden_Done by blast
  obtain bp n2 w2 where h2: "harden_secret I (su_bind_password v) vlt ''NEXUS_AGENT_BIND_PASSWORD'' w1
      = (Done (bp, n2), w2)" and d2: "disk_kept w1 w2"
    using harden_Done by blast
  let ?w3 = "w2\<lparr>w_files := (w_files w2)(?p \<mapsto> setup_toml v sk bp)\<rparr>"
  let ?rest = "seqM (println ([NL] @ ''[ok] wrote '' @ ?p @ '' (no plaintext secrets)'')) (\<lambda>_.
      seqM (print_all (setup_notes n1 n2)) (\<lambda>_.
        tryM (check_config I ?p v) (\<lambda>_. setup_end I ?p interactive)))"
  have w: "write_config ?p (setup_toml v sk bp) w2 = (Done (Ok ()), ?w3)"
    using d1 d2 assms(2,3) by (intro write_config_run) (simp_all add: disk_kept_def)
  have "finalize_setup I config_path v interactive (c, w) = ?rest (c, ?w3)"
    unfolding finalize_setup_def Let_def
    by (simp add: assms(1) onSnd_def h1 h2 w del: append.simps)
  moreover have "keeps (on_world disk_kept) ?rest"
    by (intro cli.keeps_seqM cli.keeps_tryM keeps_console keeps_setup_rest)
  then have "on_world disk_kept (c, ?w3) (snd (?rest (c, ?w3)))" by (rule keeps_at)
  ultimately have "on_world disk_kept (c, ?w3) k" using assms(4) by (metis snd_conv)
  then have "disk_kept ?w3 (snd k)" by (simp add: on_world_def)
  then have "w_files (snd k) ?p = Some (setup_toml v sk bp)" by (simp add: disk_kept_def)
  with h1 h2 show ?thesis by blast
qed

text \<open>
  The file that setup writes: the settings as given, with both secrets replaced by references.
  The agent's token is in it as it was given, although setup reports that no plaintext secret was
  written.
\<close>

theorem setup_file_contents:
  assumes "is_ok (vault I (w_env w))" "w_nowrite w (effective_config_path I config_path) = None"
    and "w_quota w = None" "finalize_setup I config_path v interactive (c, w) = (r, k)"
  shows "\<exists>sk bp before after.
    w_files (snd k) (effective_config_path I config_path) = Some (setup_toml v sk bp)
    \<and> reference sk \<and> reference bp
    \<and> setup_toml v sk bp = before @ toml_string ''agent_token'' (su_agent_token v) @ after"
proof -
  obtain vlt where "vault I (w_env w) = Ok vlt" using assms(1) by (cases "vault I (w_env w)") auto
  from setup_file [OF this assms(2-4)] obtain sk n1 w1 bp n2 w2 where
    h: "harden_secret I (su_secret_key v) vlt ''SECRET_ENCRYPTION_KEY'' w = (Done (sk, n1), w1)"
      "harden_secret I (su_bind_password v) vlt ''NEXUS_AGENT_BIND_PASSWORD'' w1 = (Done (bp, n2), w2)"
    and written: "w_files (snd k) (effective_config_path I config_path) = Some (setup_toml v sk bp)"
    by blast
  have "reference sk" "reference bp"
    using harden_Done [of I "su_secret_key v" vlt "''SECRET_ENCRYPTION_KEY''" w]
      harden_Done [of I "su_bind_password v" vlt "''NEXUS_AGENT_BIND_PASSWORD''" w1]
    unfolding h by auto
  moreover have "\<exists>before after. setup_toml v sk bp = before @ toml_string ''agent_token'' (su_agent_token v) @ after"
    unfolding setup_toml_def by (metis append_assoc)
  ultimately show ?thesis using written by blast
qed

text \<open>
  C31. Without a vault, setup keeps raw secrets to itself: with two different raw keys and two
  different raw bind passwords it does exactly the same, so that neither the file, nor the
  terminal, nor any call to another system tells anything about them.
\<close>

theorem setup_without_vault_hides_secrets:
  assumes "vault I (w_env (snd k)) = Ok None"
    and "\<not> reference (trim (su_secret_key v))" "\<not> reference (trim key)"
    and "\<not> reference (trim (su_bind_password v))" "\<not> reference (trim password)"
  shows "finalize_setup I config_path (v\<lparr>su_secret_key := key, su_bind_password := password\<rparr>) interactive k
       = finalize_setup I config_path v interactive k"
proof -
  have "harden_secret I s None n = harden_secret I s' None n"
    if "\<not> reference (trim s)" "\<not> reference (trim s')" for s s' n
    using that by (simp add: fun_eq_iff harden_cases)
  with assms have "harden_secret I key None n = harden_secret I (su_secret_key v) None n"
    "harden_secret I password None n = harden_secret I (su_bind_password v) None n" for n by blast+
  moreover have "ask_broker I env cfg (v\<lparr>su_secret_key := key, su_bind_password := password\<rparr>)
      = ask_broker I env cfg v" for env cfg
    by (simp add: ask_broker_def cong: result.case_cong)
  then have "check_config I path (v\<lparr>su_secret_key := key, su_bind_password := password\<rparr>) = check_config I path v"
    for path by (intro ext) (simp only: check_config_def)
  moreover note this
  moreover have "setup_toml (v\<lparr>su_secret_key := key, su_bind_password := password\<rparr>) = setup_toml v"
    by (simp add: fun_eq_iff setup_toml_def)
  ultimately show ?thesis
    by (simp add: finalize_setup_def assms(1) del: append.simps)
qed

section \<open>Reading the file back\<close>





section \<open>Instances\<close>

definition pasted_values :: setup_values where
  "pasted_values = \<lparr>su_base_url = ''https://idp'', su_agent_id = ''dc-01'', su_agent_token = ''tok'',
     su_mode = ''ad'', su_secret_key = ''raw-key'', su_ad_url = ''ldaps://dc01'', su_bind_dn = ''CN=svc'',
     su_bind_password = ''raw-pw'', su_base_dn = ''DC=corp''\<rparr>"




lemma raw_pasted: "\<not> reference (trim (su_secret_key pasted_values))" "\<not> reference (trim ''other-key'')"
  "\<not> reference (trim (su_bind_password pasted_values))" "\<not> reference (trim ''other-pw'')"
  "\<not> reference (trim ''raw-key'')"
proof -
  have "trim ''raw-key'' = ''raw-key''" "trim ''other-key'' = ''other-key''" "trim ''raw-pw'' = ''raw-pw''"
    "trim ''other-pw'' = ''other-pw''"
    by (rule trim_graphic; simp add: graphic_def byte_def)+
  then show "\<not> reference (trim (su_secret_key pasted_values))" "\<not> reference (trim ''other-key'')"
    "\<not> reference (trim (su_bind_password pasted_values))" "\<not> reference (trim ''other-pw'')"
    "\<not> reference (trim ''raw-key'')"
    by (simp_all add: pasted_values_def reference_def starts_with_def)
qed

lemma no_vault: "vault base_iface (w_env sample_world) = Ok None"
  by (simp add: vault_def env_var_def sample_world_def)

theorem setup_without_vault_hides_secrets_witness:
  "finalize_setup base_iface ''c.toml'' (pasted_values\<lparr>su_secret_key := ''other-key'', su_bind_password := ''other-pw''\<rparr>)
     False (\<lparr>con_in = [], con_out = []\<rparr>, sample_world)
   = finalize_setup base_iface ''c.toml'' pasted_values False (\<lparr>con_in = [], con_out = []\<rparr>, sample_world)"
  by (rule setup_without_vault_hides_secrets [OF _ raw_pasted(1-4)]) (simp add: no_vault)

theorem setup_file_contents_witness:
  "\<exists>sk bp before after r k.
     finalize_setup base_iface ''c.toml'' pasted_values False (\<lparr>con_in = [], con_out = []\<rparr>, sample_world) = (r, k)
     \<and> w_files (snd k) ''c.toml'' = Some (setup_toml pasted_values sk bp) \<and> reference sk \<and> reference bp
     \<and> setup_toml pasted_values sk bp = before @ toml_string ''agent_token'' ''tok'' @ after"
proof -
  obtain r k where run: "finalize_setup base_iface ''c.toml'' pasted_values False
      (\<lparr>con_in = [], con_out = []\<rparr>, sample_world) = (r, k)" by (metis prod.exhaust)
  have p: "effective_config_path base_iface ''c.toml'' = ''c.toml''"
    by (simp add: effective_config_path_def base_iface_def)
  have t: "su_agent_token pasted_values = ''tok''" by (simp add: pasted_values_def)
  have "is_ok (vault base_iface (w_env sample_world))" by (simp add: no_vault)
  moreover have "w_nowrite sample_world (effective_config_path base_iface ''c.toml'') = None"
    "w_quota sample_world = None" by (simp_all add: sample_world_def)
  ultimately show ?thesis using setup_file_contents [OF _ _ _ run] run unfolding p t by blast
qed


section \<open>Verifying from the command line\<close>

lemma start_logging_run:
  "\<exists>c' x. start_logging I (c, w) = (Done (), (c', w\<lparr>w_ext := x\<rparr>))"
  by (auto simp: start_logging_def Let_def seqM_def onSnd_def callM_def println_def print_def split: prod.split)

lemma verify_command_run:
  "\<exists>c'. verify_command I path (c, w) =
     (Done (case verify I path w of
        Ok rep \<Rightarrow> if vr_ok rep then Ok () else Err (Audit_err ''integrity check failed'')
      | Err e \<Rightarrow> Err e), (c', w))"
  by (cases "verify I path w")
    (auto simp: verify_command_def println_def print_def seqM_def retM_def simp del: append.simps)

text \<open>
  C21. The exit code of \<open>verify-log\<close>: the command ends, and with success exactly when the file is a
  chain from the genesis hash (or is not there).
\<close>

theorem verify_log_exit_code:
  shows "\<exists>code k. main I hostname (Verify_log path) (c, w) = Some (code, k)
    \<and> (code = SUCCESS \<longleftrightarrow> (\<exists>rs. file_records I path w = Ok rs \<and> chain I GENESIS 1 rs))"
proof -
  obtain c1 x where l: "start_logging I (c, w) = (Done (), (c1, w\<lparr>w_ext := x\<rparr>))"
    using start_logging_run [of I c w] by blast
  let ?w = "w\<lparr>w_ext := x\<rparr>"
  have same: "verify I path ?w = verify I path w"
    unfolding verify_def by (subst fs_open_same [of ?w w]) simp_all
  obtain c2 where v: "verify_command I path (c1, ?w) = (Done (case verify I path w of
        Ok rep \<Rightarrow> if vr_ok rep then Ok () else Err (Audit_err ''integrity check failed'')
      | Err e \<Rightarrow> Err e), (c2, ?w))"
    using verify_command_run [of I path c1 ?w] unfolding same by blast
  have "\<exists>code k. main I hostname (Verify_log path) (c, w) = Some (code, k)
      \<and> (code = SUCCESS \<longleftrightarrow> (\<exists>rep. verify I path w = Ok rep \<and> vr_ok rep))"
    by (cases "verify I path w")
      (auto simp: main_def dispatch_def l v main_exit_def retM_def seqM_def println_def print_def
        simp del: append.simps)
  moreover have "(\<exists>rep. verify I path w = Ok rep \<and> vr_ok rep)
      \<longleftrightarrow> (\<exists>rs. file_records I path w = Ok rs \<and> chain I GENESIS 1 rs)"
    using verify_chain_iff by blast
  ultimately show ?thesis by simp
qed

section \<open>The wizard\<close>

text \<open>A part of a command whose effect on the machine does not depend on the terminal.\<close>

definition deaf :: "('x, 'a) cli \<Rightarrow> bool" where
  "deaf m \<longleftrightarrow> (\<forall>c c' w. fst (m (c, w)) = fst (m (c', w)) \<and> snd (snd (m (c, w))) = snd (snd (m (c', w))))"

lemma deafE:
  assumes "deaf m"
  obtains a w' c1 c2 where "m (c, w) = (a, (c1, w'))" "m (c', w) = (a, (c2, w'))"
  using assms unfolding deaf_def by (metis prod.collapse)

lemma deaf_seqM: "deaf m \<Longrightarrow> (\<And>a. deaf (f a)) \<Longrightarrow> deaf (seqM m f)"
  unfolding deaf_def
proof (intro allI, goal_cases)
  case (1 c c' w)
  have "deaf m" using 1(1) by (simp add: deaf_def)
  then obtain a w' c1 c2 where m: "m (c, w) = (a, (c1, w'))" "m (c', w) = (a, (c2, w'))" by (rule deafE)
  show ?case using 1(2) by (cases a) (simp_all add: m seqM_def)
qed

lemma deaf_retM: "deaf (retM a)"
  by (simp add: deaf_def retM_def)

lemma deaf_liftM: "deaf (liftM r)"
  by (simp add: deaf_def liftM_def retM_def)

lemma deaf_tryM: "deaf m \<Longrightarrow> (\<And>a. deaf (f a)) \<Longrightarrow> deaf (tryM m f)"
  unfolding tryM_def by (intro deaf_seqM) (auto intro: deaf_retM split: result.split)

lemma deaf_println: "deaf (println s)"
  by (simp add: deaf_def println_def print_def)

lemma deaf_onSnd: "deaf (onSnd m)"
  by (simp add: deaf_def onSnd_def split: prod.split)

lemma deaf_print_all: "deaf (print_all ns)"
  by (induction ns) (auto intro: deaf_retM deaf_seqM deaf_println)

lemmas deaf_rules = deaf_seqM deaf_tryM deaf_retM deaf_liftM deaf_println deaf_onSnd deaf_print_all

lemma deaf_at: "(\<And>w. deaf (\<lambda>k. m w k)) \<Longrightarrow> deaf (\<lambda>k. m (snd k) k)"
  by (simp add: deaf_def)

lemma deaf_ask_broker: "deaf (ask_broker I env cfg v)"
  unfolding ask_broker_def by (intro deaf_rules)

lemma deaf_check_config: "deaf (check_config I path v)"
proof -
  have "deaf (\<lambda>k. case load I path w of Ok cfg \<Rightarrow> ask_broker I (w_env w) cfg v k
      | Err e \<Rightarrow> seqM (println (''[warn] config written but did not validate: '' @ error_str e)) (\<lambda>_. retM (Ok ())) k)"
    for w
    by (cases "load I path w") (auto intro: deaf_rules deaf_ask_broker simp del: append.simps)
  then show ?thesis unfolding check_config_def by (rule deaf_at)
qed

lemma deaf_finalize_setup: "\<not> if_windows I \<Longrightarrow> deaf (finalize_setup I path v interactive)"
  unfolding finalize_setup_def Let_def
  by (rule deaf_at) (auto intro!: deaf_rules deaf_check_config simp: setup_end_def split: prod.split)

lemma end_unix: "\<not> if_windows I \<Longrightarrow> finalize_setup I path v True = finalize_setup I path v False"
  by (rule ext) (simp add: finalize_setup_def setup_end_def)

text \<open>What a line typed at a prompt stands for, and the flags that say the same.\<close>

definition typed :: "string \<Rightarrow> string \<Rightarrow> string" where
  "typed deflt l = (if trim l = [] then deflt else trim l)"

definition typed_flags :: "string \<Rightarrow> string list \<Rightarrow> setup_flags" where
  "typed_flags config ls =
     \<lparr>fl_config = config, fl_non_interactive = True,
      fl_idp_url = Some (typed ''https://demo.nexusid.ai'' (ls ! 0)),
      fl_agent_id = Some (typed ''dc-01-agent'' (ls ! 1)), fl_token = Some (typed [] (ls ! 2)),
      fl_mode = Some (typed ''ad'' (ls ! 3)), fl_secret_key = Some (typed ''env:SECRET_ENCRYPTION_KEY'' (ls ! 4)),
      fl_ad_url = Some (typed ''ldaps://dc01.corp.example.com:636'' (ls ! 5)),
      fl_bind_dn = Some (typed ''CN=svc-nexus,OU=Service Accounts,DC=corp,DC=example,DC=com'' (ls ! 6)),
      fl_bind_password = Some (typed [] (ls ! 7)),
      fl_base_dn = Some (typed ''DC=corp,DC=example,DC=com'' (ls ! 8))\<rparr>"

definition prompt_text :: "string \<Rightarrow> string \<Rightarrow> string" where
  "prompt_text label deflt = (if deflt = [] then label @ '': '' else label @ '' ['' @ deflt @ '']: '')"

lemma prompt_then:
  "utf8_valid l \<Longrightarrow> tryM (prompt label deflt) f (\<lparr>con_in = Ok l # ls, con_out = out\<rparr>, w)
     = f (typed deflt l) (\<lparr>con_in = ls, con_out = out @ prompt_text label deflt\<rparr>, w)"
  by (simp add: prompt_def prompt_text_def print_def read_input_def seqM_def tryM_def liftM_def retM_def typed_def)

lemma println_then: "seqM (println s) f (c, w) = f () (\<lparr>con_in = con_in c, con_out = con_out c @ s @ [NL]\<rparr>, w)"
  by (cases c) (simp add: seqM_def println_def print_def)

lemma wizard_run:
  assumes "con_in c = map Ok ls @ rest" "length ls = 9" "list_all utf8_valid ls"
  shows "\<exists>out. setup_wizard I config (c, w)
    = finalize_setup I config (flag_values (typed_flags config ls)) True (\<lparr>con_in = rest, con_out = out\<rparr>, w)"
proof -
  obtain l0 l1 l2 l3 l4 l5 l6 l7 l8 where ls: "ls = [l0, l1, l2, l3, l4, l5, l6, l7, l8]"
    using assms(2) by (auto simp: numeral_eq_Suc length_Suc_conv)
  have valid: "utf8_valid l0" "utf8_valid l1" "utf8_valid l2" "utf8_valid l3" "utf8_valid l4" "utf8_valid l5"
    "utf8_valid l6" "utf8_valid l7" "utf8_valid l8" using assms(3) by (simp_all add: ls)
  have vals: "flag_values (typed_flags config ls) = \<lparr>su_base_url = typed ''https://demo.nexusid.ai'' l0,
      su_agent_id = typed ''dc-01-agent'' l1, su_agent_token = typed [] l2, su_mode = typed ''ad'' l3,
      su_secret_key = typed ''env:SECRET_ENCRYPTION_KEY'' l4,
      su_ad_url = typed ''ldaps://dc01.corp.example.com:636'' l5,
      su_bind_dn = typed ''CN=svc-nexus,OU=Service Accounts,DC=corp,DC=example,DC=com'' l6,
      su_bind_password = typed [] l7, su_base_dn = typed ''DC=corp,DC=example,DC=com'' l8\<rparr>"
    by (simp add: flag_values_def typed_flags_def unwrap_or_def ls)
  have "con_in c = Ok l0 # Ok l1 # Ok l2 # Ok l3 # Ok l4 # Ok l5 # Ok l6 # Ok l7 # Ok l8 # rest"
    using assms(1) by (simp add: ls)
  then show ?thesis
    unfolding setup_wizard_def vals by (simp only: println_then prompt_then [OF valid(1)] prompt_then [OF valid(2)]
        prompt_then [OF valid(3)] prompt_then [OF valid(4)] prompt_then [OF valid(5)] prompt_then [OF valid(6)]
        prompt_then [OF valid(7)] prompt_then [OF valid(8)] prompt_then [OF valid(9)]) blast
qed

text \<open>
  C20. On a host without Windows services, the setup wizard does to the machine exactly what
  \<open>setup --non-interactive\<close> does with the typed lines as flags, a blank line counting as the default
  the prompt shows and the spaces around a line being dropped: same result, same file, same calls.
\<close>

theorem wizard_does_what_flags_do:
  assumes "\<not> if_windows I" "\<not> fl_non_interactive f"
    and "con_in c = map Ok ls @ rest" "length ls = 9" "list_all utf8_valid ls"
  shows "\<exists>r w' c1 c2. dispatch I hostname (Setup_cmd f) (c, w) = Some (r, (c1, w'))
    \<and> dispatch I hostname (Setup_cmd (typed_flags (fl_config f) ls)) (c, w) = Some (r, (c2, w'))"
proof -
  let ?fin = "finalize_setup I (fl_config f) (flag_values (typed_flags (fl_config f) ls)) False"
  obtain out where "setup_wizard I (fl_config f) (c, w) = ?fin (\<lparr>con_in = rest, con_out = out\<rparr>, w)"
    using wizard_run [OF assms(3-5)] end_unix [OF assms(1)] by metis
  moreover have "fl_config (typed_flags (fl_config f) ls) = fl_config f"
    "fl_non_interactive (typed_flags (fl_config f) ls)" by (simp_all add: typed_flags_def)
  moreover obtain r w' c1 c2 where "?fin (\<lparr>con_in = rest, con_out = out\<rparr>, w) = (r, (c1, w'))"
    "?fin (c, w) = (r, (c2, w'))" using deafE [OF deaf_finalize_setup [OF assms(1)]] by metis
  ultimately show ?thesis using assms(2) by (simp add: dispatch_def setup_noninteractive_def)
qed

definition typed_lines :: "string list" where
  "typed_lines = [[NL], ''dc-07'' @ [NL], ''tok'' @ [NL], [NL], [NL], [NL], [NL], ''pw'' @ [NL], [NL]]"

theorem wizard_does_what_flags_do_witness:
  "\<exists>r w' c1 c2 f. fl_token (typed_flags ''c.toml'' typed_lines) = Some ''tok''
    \<and> fl_idp_url (typed_flags ''c.toml'' typed_lines) = Some ''https://demo.nexusid.ai''
    \<and> \<not> fl_non_interactive f
    \<and> dispatch base_iface ''host'' (Setup_cmd f) (\<lparr>con_in = map Ok typed_lines, con_out = []\<rparr>, sample_world)
        = Some (r, (c1, w'))
    \<and> dispatch base_iface ''host'' (Setup_cmd (typed_flags ''c.toml'' typed_lines))
        (\<lparr>con_in = map Ok typed_lines, con_out = []\<rparr>, sample_world) = Some (r, (c2, w'))"
proof -
  let ?f = "(typed_flags ''c.toml'' typed_lines)\<lparr>fl_non_interactive := False\<rparr>"
  let ?c = "\<lparr>con_in = map Ok typed_lines, con_out = []\<rparr>"
  have "list_all utf8_valid typed_lines"
    unfolding typed_lines_def by (simp, intro conjI) (rule utf8_valid_ascii, simp add: byte_def)+
  moreover have "\<not> if_windows base_iface" by (simp add: base_iface_def)
  moreover have "con_in ?c = map Ok typed_lines @ []" "length typed_lines = 9" "\<not> fl_non_interactive ?f"
    by (simp_all add: typed_lines_def)
  moreover have "fl_config ?f = ''c.toml''" by (simp add: typed_flags_def)
  ultimately obtain r w' c1 c2 where
    "dispatch base_iface ''host'' (Setup_cmd ?f) (?c, sample_world) = Some (r, (c1, w'))"
    "dispatch base_iface ''host'' (Setup_cmd (typed_flags ''c.toml'' typed_lines)) (?c, sample_world) = Some (r, (c2, w'))"
    using wizard_does_what_flags_do by metis
  moreover have "typed [] (''tok'' @ [NL]) = ''tok''"
    "typed ''https://demo.nexusid.ai'' [NL] = ''https://demo.nexusid.ai''"
    using trim_line [of "''tok''"] by (simp_all add: typed_def trim_blank_line graphic_def byte_def)
  then have "fl_token (typed_flags ''c.toml'' typed_lines) = Some ''tok''"
    "fl_idp_url (typed_flags ''c.toml'' typed_lines) = Some ''https://demo.nexusid.ai''"
    by (simp_all add: typed_flags_def typed_lines_def)
  moreover have "\<not> fl_non_interactive ?f" by simp
  ultimately show ?thesis by blast
qed

end
