(* ===== verification/Provisioning.thy ===== *)
theory Provisioning
  imports Ad_Thms
begin

text \<open>
  What the provisioning queue promises, as operations on a directory: the abstract specification that
  the \<open>match\<close> of \<open>AdMode::process\<close> (\<open>src/modes/ad.rs\<close>) refines. \<open>request_of\<close> reads a queued
  operation; \<open>provisions\<close> says how a request that was carried out may change the directory.
\<close>

section \<open>Requests\<close>

datatype request =
    Create_account "(string \<times> string) list" "string option"
  | Set_enabled string bool
  | Update_account string "(string \<times> string) list"
  | Check_base
  | List_users string string

definition given_password :: "'x iface \<Rightarrow> cipher \<Rightarrow> operation \<Rightarrow> (agent_error, string option) result" where
  "given_password I c op =
     (case op_encrypted_password op of
        Some enc \<Rightarrow> bind_res (decrypt_serialized I c enc) (\<lambda>p. Ok (Some p))
      | None \<Rightarrow> Ok None)"

definition search_base :: "operation \<Rightarrow> (string \<times> string) list \<Rightarrow> (agent_error, string) result" where
  "search_base op params =
     (case nonempty (map_of params ''userBaseDn'') of
        Some b \<Rightarrow> Ok b
      | None \<Rightarrow> ok_or (Ldap_err ''SYNC_USERS missing base DN'') (op_target_base_dn op))"

definition request_of :: "'x iface \<Rightarrow> cipher \<Rightarrow> operation \<Rightarrow> (agent_error, request) result" where
  "request_of I c op =
     (if op_type op = ''CREATE_ACCOUNT'' then
        bind_res (parse_attrs I (op_attributes_json op)) (\<lambda>attrs.
          bind_res (given_password I c op) (\<lambda>pw. Ok (Create_account attrs pw)))
      else if op_type op = ''ENABLE_ACCOUNT'' then bind_res (email op) (\<lambda>em. Ok (Set_enabled em True))
      else if op_type op = ''DISABLE_ACCOUNT'' then bind_res (email op) (\<lambda>em. Ok (Set_enabled em False))
      else if op_type op = ''UPDATE_ATTRIBUTES'' then
        bind_res (parse_attrs I (op_attributes_json op)) (\<lambda>attrs.
          bind_res (email op) (\<lambda>em. Ok (Update_account em attrs)))
      else if op_type op = ''TEST_CONNECTION'' then Ok Check_base
      else if op_type op = ''SYNC_USERS'' then
        bind_res (parse_attrs I (op_attributes_json op)) (\<lambda>params.
          bind_res (search_base op params) (\<lambda>base.
            Ok (List_users base (case nonempty (map_of params ''filter'') of
                Some f \<Rightarrow> f | None \<Rightarrow> default_user_filter))))
      else Err (Ldap_err (''unknown op type: '' @ op_type op)))"

text \<open>
  \<open>selected em dn a\<close> says that the e-mail selects the entry \<open>dn\<close> with the attributes \<open>a\<close>; \<open>writeback\<close>
  that the agent may write passwords.
\<close>

inductive provisions :: "(string \<Rightarrow> string \<Rightarrow> entry_attrs \<Rightarrow> bool) \<Rightarrow> bool \<Rightarrow> request \<Rightarrow> directory \<Rightarrow> directory \<Rightarrow> bool"
  for selected writeback where
  created: "\<lbrakk>map_of attrs ''distinguishedName'' = Some dn; d dn = None;
      a ''userAccountControl'' = Some [''514''];
      \<forall>(k, v) \<in> set attrs. v \<noteq> [] \<and> k \<notin> {''distinguishedName'', ''unicodePwd''} \<longrightarrow> a k = Some [v];
      \<forall>p. pw = Some p \<and> writeback \<longrightarrow> a ''unicodePwd'' = Some [encode_password p]\<rbrakk> \<Longrightarrow>
    provisions selected writeback (Create_account attrs pw) d (d(dn \<mapsto> a))"
| switched: "\<lbrakk>d dn = Some a; selected em dn a\<rbrakk> \<Longrightarrow>
    provisions selected writeback (Set_enabled em on) d
      (d(dn \<mapsto> a(''userAccountControl'' \<mapsto> [if on then ''512'' else ''514''])))"
| updated: "\<lbrakk>d dn = Some a; selected em dn a;
      \<forall>k. a' k = (case map_of attrs k of
                     Some v \<Rightarrow> if k = ''distinguishedName'' \<or> v = [] then a k else Some [v]
                   | None \<Rightarrow> a k)\<rbrakk> \<Longrightarrow>
    provisions selected writeback (Update_account em attrs) d (d(dn \<mapsto> a'))"
| checked: "provisions selected writeback Check_base d d"
| listed: "provisions selected writeback (List_users base flt) d d"

inductive_cases createdE: "provisions selected writeback (Create_account attrs pw) d d'"

section \<open>The refinement\<close>

lemma de_str_map_sorted: "de_str_map j = Some m \<Longrightarrow> bt_ok m"
  by (cases j) (auto simp: de_str_map_def bt_ok_of_list)

lemma parse_attrs_sorted: "parse_attrs I j = Ok attrs \<Longrightarrow> bt_ok attrs"
  by (auto simp: parse_attrs_def from_json_str_def de_str_map_sorted result_inv bt_ok_def [of "[]"]
      Option.bind_eq_Some_conv split: option.splits)

text \<open>A request that cannot be read is refused before anything is asked of the directory.\<close>

lemma process_refuses:
  "request_of I (am_cipher am) op = Err e \<Longrightarrow> process I am op lc w = (Done (Err e), w)"
  by (auto simp: request_of_def process_def do_create_def do_enable_def do_disable_def do_update_def
      do_sync_users_def given_password_def search_base_def bind_res_Err liftM_apply retM_apply tryM_def
      split: if_splits)

lemma search_same:
  assumes "directory_laws I dir matches"
    and "tryM (seqM (await e (if_ldap_search I (lc_ldap lc) base sc flt atts)) (\<lambda>a. liftM (found I what rej a)))
      (\<lambda>es. retM (Ok (f es))) w = (Done (Ok x), w')"
  shows "dir (lc_ldap lc) (w_ext w') = dir (lc_ldap lc) (w_ext w)"
proof -
  obtain es w1 where "seqM (await e (if_ldap_search I (lc_ldap lc) base sc flt atts))
      (\<lambda>a. liftM (found I what rej a)) w = (Done (Ok es), w1)" "w' = w1"
    using assms(2) by (auto elim!: tryM_OkE)
  with found_Done obtain r where "if_ldap_search I (lc_ldap lc) base sc flt atts (w_ext w) = (Ok (es, r), w_ext w')"
    by metis
  with directory_search [OF assms(1)] show ?thesis by blast
qed


lemma create_provisions:
  assumes "directory_laws I dir matches" "do_create I am op lc w = (Done (Ok res), w')"
    and "request_of I (am_cipher am) op = Ok q" "op_type op = ''CREATE_ACCOUNT''"
  shows "provisions selected (lc_password_writeback lc) q
    (dir (lc_ldap lc) (w_ext w)) (dir (lc_ldap lc) (w_ext w'))"
proof -
  from assms(3,4) obtain attrs pw where q: "q = Create_account attrs pw"
    "parse_attrs I (op_attributes_json op) = Ok attrs" "given_password I (am_cipher am) op = Ok pw"
    by (auto simp: request_of_def bind_res_Ok)
  then have "tryM (create_account I lc attrs pw) (\<lambda>dn. retM (Ok (dn_result dn []))) w = (Done (Ok res), w')"
    using assms(2) unfolding do_create_def given_password_def by simp
  then obtain dn where "create_account I lc attrs pw w = (Done (Ok dn), w')" by (auto elim!: tryM_OkE)
  from create_account_adds [OF assms(1) this] show ?thesis
    unfolding q(1) by (elim exE conjE) (simp only:, rule provisions.created, assumption+)
qed

lemma uac_provisions:
  assumes "directory_laws I dir matches" "set_uac I lc em (if on then ''512'' else ''514'') w = (Done (Ok dn), w')"
  shows "provisions (\<lambda>em. matches Subtree_scope (lc_base_dn lc) (account_filter em)) wb (Set_enabled em on)
    (dir (lc_ldap lc) (w_ext w)) (dir (lc_ldap lc) (w_ext w'))"
  using set_uac_ok [OF assms] by (elim exE conjE) (simp only:, rule provisions.switched)

lemma update_provisions:
  assumes "directory_laws I dir matches" "bt_ok attrs" "update_attributes I lc em attrs w = (Done (Ok dn), w')"
  shows "provisions (\<lambda>em. matches Subtree_scope (lc_base_dn lc) (account_filter em)) wb (Update_account em attrs)
    (dir (lc_ldap lc) (w_ext w)) (dir (lc_ldap lc) (w_ext w'))"
  using update_attributes_ok [OF assms] by (elim exE conjE) (simp only:, rule provisions.updated)

lemma process_provisions:
  assumes "directory_laws I dir matches" "request_of I (am_cipher am) op = Ok q"
    and "process I am op lc w = (Done (Ok res), w')"
  shows "provisions (\<lambda>em. matches Subtree_scope (lc_base_dn lc) (account_filter em)) (lc_password_writeback lc) q
    (dir (lc_ldap lc) (w_ext w)) (dir (lc_ldap lc) (w_ext w'))" (is ?goal)
proof -
  note type_cases = request_of_def process_def
  consider "op_type op = ''CREATE_ACCOUNT''" | "op_type op = ''ENABLE_ACCOUNT''" | "op_type op = ''DISABLE_ACCOUNT''"
    | "op_type op = ''UPDATE_ATTRIBUTES''" | "op_type op = ''TEST_CONNECTION''" | "op_type op = ''SYNC_USERS''"
    using assms(2) by (auto simp: request_of_def split: if_splits)
  then show ?goal
  proof cases
    case 1
    with assms show ?goal by (intro create_provisions) (simp_all add: process_def)
  next
    case 2
    with assms(2,3) obtain em dn where "q = Set_enabled em True" "enable_account I lc em w = (Done (Ok dn), w')"
      by (auto simp: type_cases bind_res_Ok do_enable_def elim!: tryM_OkE)
    with uac_provisions [OF assms(1), of lc em True w dn w'] show ?goal
      by (simp add: enable_account_def UAC_ENABLED_def)
  next
    case 3
    with assms(2,3) obtain em dn where "q = Set_enabled em False" "disable_account I lc em w = (Done (Ok dn), w')"
      by (auto simp: type_cases bind_res_Ok do_disable_def elim!: tryM_OkE)
    with uac_provisions [OF assms(1), of lc em False w dn w'] show ?goal
      by (simp add: disable_account_def UAC_DISABLED_def)
  next
    case 4
    with assms(2,3) obtain em attrs dn where "q = Update_account em attrs"
      "parse_attrs I (op_attributes_json op) = Ok attrs" "update_attributes I lc em attrs w = (Done (Ok dn), w')"
      by (auto simp: type_cases bind_res_Ok do_update_def elim!: tryM_OkE)
    with update_provisions [OF assms(1) parse_attrs_sorted] show ?goal by simp
  next
    case 5
    with assms(3) obtain n where "test_base I lc w = (Done (Ok n), w')"
      by (auto simp: type_cases do_test_def elim!: tryM_OkE)
    then have "dir (lc_ldap lc) (w_ext w') = dir (lc_ldap lc) (w_ext w)"
      unfolding test_base_def by (rule search_same [OF assms(1)])
    with 5 assms(2) show ?goal by (auto simp: request_of_def intro: provisions.checked)
  next
    case 6
    with assms(2,3) obtain base flt users where "q = List_users base flt"
      "search_users I lc base flt w = (Done (Ok users), w')"
      by (auto simp: type_cases bind_res_Ok do_sync_users_def search_base_def Let_def elim!: tryM_OkE)
    moreover from this(2) have "dir (lc_ldap lc) (w_ext w') = dir (lc_ldap lc) (w_ext w)"
      unfolding search_users_def by (rule search_same [OF assms(1)])
    ultimately show ?goal by (auto intro: provisions.listed)
  qed
qed


text \<open>
  C5. Processing an operation refines the directory's abstract specification. An operation that
  cannot be read as a request (an unknown type, attributes that do not parse, a password that does
  not decrypt, no e-mail, no base DN) is refused with that error before anything is asked of the
  directory; one that is carried out changes the directory as its request allows and in no other
  way.
\<close>

theorem process_refines_provisioning:
  assumes "directory_laws I dir matches"
  shows "(\<forall>e. request_of I (am_cipher am) op = Err e \<longrightarrow> process I am op lc w = (Done (Err e), w))
    \<and> (\<forall>q res w'. request_of I (am_cipher am) op = Ok q \<and> process I am op lc w = (Done (Ok res), w') \<longrightarrow>
         provisions (\<lambda>em. matches Subtree_scope (lc_base_dn lc) (account_filter em)) (lc_password_writeback lc) q
           (dir (lc_ldap lc) (w_ext w)) (dir (lc_ldap lc) (w_ext w')))"
  using process_refuses process_provisions [OF assms] by blast

section \<open>A new account's password\<close>

lemma create_request:
  "op_type op = ''CREATE_ACCOUNT'' \<Longrightarrow> request_of I c op =
     bind_res (parse_attrs I (op_attributes_json op)) (\<lambda>attrs.
       bind_res (given_password I c op) (\<lambda>pw. Ok (Create_account attrs pw)))"
  by (simp add: request_of_def)

lemma process_reads: "process I am op lc w = (Done (Ok res), w') \<Longrightarrow> \<exists>q. request_of I (am_cipher am) op = Ok q"
  using process_refuses [of I am op _ lc w] by (cases "request_of I (am_cipher am) op") auto

lemma route_default:
  "op_forest_context_json op = None \<Longrightarrow> route_and_process I am op lc conns = with_conns conns (process I am op lc)"
  by (simp add: route_and_process_def)

text \<open>
  C15. From the broker's vault to the directory: when the agent carries out an account creation whose
  password was encrypted with the key it shares with the broker, the entry it added is disabled and
  its \<open>unicodePwd\<close> decodes to exactly that password between quotes, character by character.
\<close>

theorem created_account_has_broker_password:
  assumes "directory_laws I dir matches" "cipher_laws I" "fill_laws I" "str_chars p = Some vs"
    and "encrypt_serialized I c p v = (Done (Ok enc), v')" "ci_key c = ci_key (am_cipher am)"
    and "op_type op = ''CREATE_ACCOUNT''" "op_encrypted_password op = Some enc" "op_forest_context_json op = None"
    and "lc_password_writeback lc"
    and "route_and_process I am op lc conns w = (Done (Ok res, conns'), w')"
  shows "\<exists>dn a pwd. dir (lc_ldap lc) (w_ext w) dn = None
    \<and> dir (lc_ldap lc) (w_ext w') = (dir (lc_ldap lc) (w_ext w))(dn \<mapsto> a)
    \<and> a ''userAccountControl'' = Some [''514''] \<and> a ''unicodePwd'' = Some [pwd]
    \<and> Option.bind (of_le_bytes pwd) utf16_decode = Some (34 # vs @ [34])"
proof -
  have run: "process I am op lc w = (Done (Ok res), w')"
    using assms(11) unfolding route_default [OF assms(9)] with_conns_def by (auto elim!: seqM_DoneE)
  have "utf8_valid p" using assms(4) by (simp add: utf8_valid_def)
  then have "decrypt_serialized I (am_cipher am) enc = Ok p"
    using decrypt_encrypted [OF assms(2,3) _ assms(5)] assms(6) by simp
  then have pw: "given_password I (am_cipher am) op = Ok (Some p)"
    using assms(8) by (simp add: given_password_def)
  obtain q where q: "request_of I (am_cipher am) op = Ok q" using process_reads [OF run] by blast
  with pw obtain attrs where "q = Create_account attrs (Some p)"
    by (auto simp: create_request [OF assms(7)] bind_res_Ok)
  with process_provisions [OF assms(1) q run]
  have "provisions (\<lambda>em. matches Subtree_scope (lc_base_dn lc) (account_filter em)) (lc_password_writeback lc)
    (Create_account attrs (Some p)) (dir (lc_ldap lc) (w_ext w)) (dir (lc_ldap lc) (w_ext w'))" by simp
  then obtain dn a where d: "dir (lc_ldap lc) (w_ext w) dn = None"
    "dir (lc_ldap lc) (w_ext w') = (dir (lc_ldap lc) (w_ext w))(dn \<mapsto> a)"
    "a ''userAccountControl'' = Some [''514'']"
    "\<forall>x. Some p = Some x \<and> lc_password_writeback lc \<longrightarrow> a ''unicodePwd'' = Some [encode_password x]"
    by (rule createdE) (rule that)
  from d(4) assms(10) have "a ''unicodePwd'' = Some [encode_password p]" by blast
  with d(1-3) decode_encoded_password [OF assms(4)] show ?thesis by blast
qed

section \<open>Alice's account\<close>

lemma sample_dir_cipher_laws: "cipher_laws sample_dir_iface" "fill_laws sample_dir_iface"
  using sample_cipher_laws
  by (simp_all add: cipher_laws_def fill_laws_def sample_dir_iface_def sample_iface_def base_iface_def)

definition alice_tree :: json where
  "alice_tree = JObj (map (\<lambda>(k, v). (k, JStr v)) alice)"

definition alice_op :: "string \<Rightarrow> operation" where
  "alice_op enc = noop\<lparr>op_type := ''CREATE_ACCOUNT'', op_attributes_json := Some (show_tree alice_tree),
     op_encrypted_password := Some enc\<rparr>"

lemma alice_op_fields:
  "op_type (alice_op enc) = ''CREATE_ACCOUNT''" "op_encrypted_password (alice_op enc) = Some enc"
  "op_forest_context_json (alice_op enc) = None" "op_attributes_json (alice_op enc) = Some (show_tree alice_tree)"
  by (simp_all add: alice_op_def noop_def)

lemma alice_parsed: "parse_attrs sample_dir_iface (Some (show_tree alice_tree)) = Ok alice"
proof -
  have "de_str_map alice_tree = Some alice" by code_simp
  then show ?thesis
    by (simp add: parse_attrs_def from_json_str_def sample_dir_iface_def base_iface_def parse_show)
qed

definition alice_password :: string where
  "alice_password = (case encrypt_serialized sample_dir_iface sample_cipher ''s3cret'' (world_on []) of
     (Done (Ok enc), w) \<Rightarrow> enc | _ \<Rightarrow> [])"

lemma alice_password: "\<exists>v. encrypt_serialized sample_dir_iface sample_cipher ''s3cret'' (world_on [])
    = (Done (Ok alice_password), v)"
  by (simp add: alice_password_def encrypt_run sample_dir_iface_def base_iface_def world_on_def)

lemma alice_request:
  "request_of sample_dir_iface (am_cipher sample_mode) (alice_op alice_password) = Ok (Create_account alice (Some ''s3cret''))"
proof -
  have "utf8_valid ''s3cret''" by (rule utf8_valid_ascii) (simp add: byte_def)
  moreover have "ci_key (am_cipher sample_mode) = ci_key sample_cipher" by (simp add: sample_mode_def)
  ultimately have "decrypt_serialized sample_dir_iface (am_cipher sample_mode) alice_password = Ok ''s3cret''"
    using alice_password decrypt_encrypted [OF sample_dir_cipher_laws] by blast
  then show ?thesis
    by (simp add: create_request alice_op_fields alice_parsed given_password_def)
qed

lemma alice_processed:
  "\<exists>res w'. process sample_dir_iface sample_mode (alice_op alice_password) sample_conn (world_on []) = (Done (Ok res), w')"
proof -
  have p: "given_password sample_dir_iface (am_cipher sample_mode) (alice_op alice_password) = Ok (Some ''s3cret'')"
    using alice_request by (auto simp: create_request alice_op_fields bind_res_Ok)
  have "process sample_dir_iface sample_mode (alice_op alice_password) sample_conn (world_on [])
    = tryM (create_account sample_dir_iface sample_conn alice (Some ''s3cret'')) (\<lambda>dn. retM (Ok (dn_result dn [])))
        (world_on [])"
    using p by (simp add: process_def do_create_def alice_op_fields alice_parsed given_password_def)
  moreover obtain w1 where "create_account sample_dir_iface sample_conn alice (Some ''s3cret'') (world_on [])
      = (Done (Ok ''CN=Alice''), w1)" using alice_created by blast
  ultimately show ?thesis by (simp add: retM_def)
qed

theorem process_refines_provisioning_witness:
  "process sample_dir_iface sample_mode (noop\<lparr>op_type := ''ENABLE_ACCOUNT''\<rparr>) sample_conn (world_on [])
     = (Done (Err (Ldap_err ''operation has no userEmail to locate the account'')), world_on [])
   \<and> (\<exists>res w'. process sample_dir_iface sample_mode (alice_op alice_password) sample_conn (world_on []) = (Done (Ok res), w')
       \<and> provisions (\<lambda>em. mail_matches Subtree_scope ''DC=corp'' (account_filter em)) True
           (Create_account alice (Some ''s3cret'')) Map.empty (map_of (w_ext w')))"
proof
  have "request_of sample_dir_iface (am_cipher sample_mode) (noop\<lparr>op_type := ''ENABLE_ACCOUNT''\<rparr>)
      = Err (Ldap_err ''operation has no userEmail to locate the account'')"
    by (simp add: request_of_def email_def noop_def)
  with process_refines_provisioning [OF sample_directory]
  show "process sample_dir_iface sample_mode (noop\<lparr>op_type := ''ENABLE_ACCOUNT''\<rparr>) sample_conn (world_on [])
     = (Done (Err (Ldap_err ''operation has no userEmail to locate the account'')), world_on [])" by blast
next
  obtain res w' where run: "process sample_dir_iface sample_mode (alice_op alice_password) sample_conn (world_on [])
      = (Done (Ok res), w')" using alice_processed by blast
  have "provisions (\<lambda>em. mail_matches Subtree_scope (lc_base_dn sample_conn) (account_filter em))
      (lc_password_writeback sample_conn) (Create_account alice (Some ''s3cret''))
      (map_of (w_ext (world_on []))) (map_of (w_ext w'))"
    using process_refines_provisioning [OF sample_directory] alice_request run by blast
  with run show "\<exists>res w'. process sample_dir_iface sample_mode (alice_op alice_password) sample_conn (world_on []) = (Done (Ok res), w')
       \<and> provisions (\<lambda>em. mail_matches Subtree_scope ''DC=corp'' (account_filter em)) True
           (Create_account alice (Some ''s3cret'')) Map.empty (map_of (w_ext w'))"
    by (simp add: sample_conn_def world_on_def)
qed

theorem created_account_has_broker_password_witness:
  "\<exists>res w' dn a pwd. route_and_process sample_dir_iface sample_mode (alice_op alice_password) sample_conn [] (world_on [])
       = (Done (Ok res, []), w')
     \<and> map_of (w_ext w') = [dn \<mapsto> a] \<and> a ''unicodePwd'' = Some [pwd]
     \<and> Option.bind (of_le_bytes pwd) utf16_decode = Some (34 # map byte ''s3cret'' @ [34])"
proof -
  obtain res w' where "process sample_dir_iface sample_mode (alice_op alice_password) sample_conn (world_on [])
      = (Done (Ok res), w')" using alice_processed by blast
  then have run: "route_and_process sample_dir_iface sample_mode (alice_op alice_password) sample_conn [] (world_on [])
      = (Done (Ok res, []), w')"
    by (simp add: route_default alice_op_fields with_conns_def retM_def)
  have "str_chars ''s3cret'' = Some (map byte ''s3cret'')" by (rule str_chars_ascii) (simp add: byte_def)
  moreover obtain v where "encrypt_serialized sample_dir_iface sample_cipher ''s3cret'' (world_on [])
      = (Done (Ok alice_password), v)" using alice_password by blast
  moreover have "ci_key sample_cipher = ci_key (am_cipher sample_mode)" by (simp add: sample_mode_def)
  moreover have "lc_password_writeback sample_conn" by (simp add: sample_conn_def)
  ultimately obtain dn a pwd where
    "map_of (w_ext w') = (map_of (w_ext (world_on ([] :: sample_dir))))(dn \<mapsto> a)"
    "a ''unicodePwd'' = Some [pwd]"
    "Option.bind (of_le_bytes pwd) utf16_decode = Some (34 # map byte ''s3cret'' @ [34])"
    using created_account_has_broker_password [OF sample_directory sample_dir_cipher_laws _ _ _ alice_op_fields(1-3) _ run]
    by blast
  with run show ?thesis by (auto simp: world_on_def simp del: list.map)
qed

end
