(* ===== verification/Provisioning_Pass.thy ===== *)
theory Provisioning_Pass
  imports Provisioning
begin

text \<open>
  What a whole drain pass (\<open>AdMode::run_once\<close>) does to the directory, failures included, and that the
  audit log accounts for it.
\<close>

section \<open>The rest of the environment\<close>

text \<open>
  Beside the laws of the directory: a request that gets no answer may have been carried out or not
  (RFC 4511 leaves that open), a search only reads, and the broker, the clock and the end of a
  connection do not write to the directory.
\<close>

definition outage_laws :: "'x iface \<Rightarrow> (nat \<Rightarrow> 'x \<Rightarrow> directory) \<Rightarrow> bool" where
  "outage_laws I dir \<longleftrightarrow>
     (\<forall>h dn atts x e x'. if_ldap_add I h dn atts x = (Err e, x') \<longrightarrow> dir h x' = dir h x
        \<or> dir h x dn = None \<and> distinct (map fst atts) \<and> (\<exists>a. map_of atts \<subseteq>\<^sub>m a \<and> dir h x' = (dir h x)(dn \<mapsto> a)))
     \<and> (\<forall>h dn ms x e x'. if_ldap_modify I h dn ms x = (Err e, x') \<longrightarrow> dir h x' = dir h x
        \<or> dn \<in> dom (dir h x) \<and> dir h x' = set_attrs ms dn (dir h x))
     \<and> (\<forall>h base sc flt atts x. dir h (snd (if_ldap_search I h base sc flt atts x)) = dir h x)"

definition bystander_laws :: "'x iface \<Rightarrow> (nat \<Rightarrow> 'x \<Rightarrow> directory) \<Rightarrow> bool" where
  "bystander_laws I dir \<longleftrightarrow>
     (\<forall>h c rq x. dir h (snd (if_http I c rq x)) = dir h x) \<and> (\<forall>h x. dir h (snd (if_now I x)) = dir h x)
     \<and> (\<forall>h g x. dir h (snd (if_ldap_unbind I g x)) = dir h x)"

section \<open>One operation, whatever comes of it\<close>

text \<open>
  A failed request changed nothing, or was carried out although its answer was lost, or created the
  account without its password.
\<close>

inductive attempts :: "(string \<Rightarrow> string \<Rightarrow> entry_attrs \<Rightarrow> bool) \<Rightarrow> bool \<Rightarrow> request \<Rightarrow> directory \<Rightarrow> directory \<Rightarrow> bool"
  for selected writeback where
  unchanged: "attempts selected writeback q d d"
| unanswered: "provisions selected writeback q d d' \<Longrightarrow> attempts selected writeback q d d'"
| without_password: "provisions selected writeback (Create_account attrs None) d d' \<Longrightarrow>
    attempts selected writeback (Create_account attrs (Some p)) d d'"

lemma add_any:
  assumes "directory_laws I dir matches" "outage_laws I dir" "add_entry I lc dn atts w = (Done r, w')"
  shows "dir (lc_ldap lc) (w_ext w') = dir (lc_ldap lc) (w_ext w) \<and> \<not> is_ok r
    \<or> dir (lc_ldap lc) (w_ext w) dn = None \<and> distinct (map fst atts)
        \<and> (\<exists>a. map_of atts \<subseteq>\<^sub>m a \<and> dir (lc_ldap lc) (w_ext w') = (dir (lc_ldap lc) (w_ext w))(dn \<mapsto> a))"
proof -
  obtain a where a: "if_ldap_add I (lc_ldap lc) dn atts (w_ext w) = (a, w_ext w')"
    and r: "r = checked I (''add '' @ dn) (''add rejected '' @ dn) a"
    using assms(3) unfolding add_entry_def by (rule request_Done)
  show ?thesis
  proof (cases a)
    case (Err e)
    with a assms(2) r show ?thesis by (auto simp: outage_laws_def checked_def ldap_err_def)
  next
    case (Ok lr)
    with a r directory_add [OF assms(1), of "lc_ldap lc" dn atts "w_ext w" lr "w_ext w'"]
      directory_refused(1) [OF assms(1), of lr "lc_ldap lc" dn atts "w_ext w" "w_ext w'"]
    show ?thesis by (cases "lr_rc lr = 0") (auto simp: checked_def success_def ldap_err_def)
  qed
qed

lemma modify_any:
  assumes "directory_laws I dir matches" "outage_laws I dir" "modify_entry I lc what dn ms w = (Done r, w')"
  shows "dir (lc_ldap lc) (w_ext w') = dir (lc_ldap lc) (w_ext w) \<and> \<not> is_ok r
    \<or> dn \<in> dom (dir (lc_ldap lc) (w_ext w))
        \<and> dir (lc_ldap lc) (w_ext w') = set_attrs ms dn (dir (lc_ldap lc) (w_ext w))"
proof -
  obtain a rej where a: "if_ldap_modify I (lc_ldap lc) dn ms (w_ext w) = (a, w_ext w')"
    and r: "r = checked I (what @ '' '' @ dn) rej a"
    using assms(3) unfolding modify_entry_def by (rule request_Done)
  show ?thesis
  proof (cases a)
    case (Err e)
    with a assms(2) r show ?thesis by (auto simp: outage_laws_def checked_def ldap_err_def)
  next
    case (Ok lr)
    with a r directory_modify [OF assms(1), of "lc_ldap lc" dn ms "w_ext w" lr "w_ext w'"]
      directory_refused(2) [OF assms(1), of lr "lc_ldap lc" dn ms "w_ext w" "w_ext w'"]
    show ?thesis by (cases "lr_rc lr = 0") (auto simp: checked_def success_def ldap_err_def)
  qed
qed

lemma search_any:
  assumes "outage_laws I dir"
    and "seqM (await e (if_ldap_search I (lc_ldap lc) base sc flt atts)) (\<lambda>a. liftM (g a)) w = (Done r, w')"
  shows "dir (lc_ldap lc) (w_ext w') = dir (lc_ldap lc) (w_ext w)"
proof -
  obtain a where "if_ldap_search I (lc_ldap lc) base sc flt atts (w_ext w) = (a, w_ext w')"
    using assms(2) by (rule request_Done)
  then show ?thesis using assms(1) unfolding outage_laws_def by (metis snd_conv)
qed

lemma find_any:
  assumes "outage_laws I dir" "find_dn I lc em w = (Done r, w')"
  shows "dir (lc_ldap lc) (w_ext w') = dir (lc_ldap lc) (w_ext w)"
  using assms(2) unfolding find_dn_def
  by (elim tryM_DoneE) (auto dest: search_any [OF assms(1)] simp del: append.simps)

text \<open>The entry a creation adds, without and with its password.\<close>

lemma provisions_added:
  assumes "map_of attrs ''distinguishedName'' = Some dn" "d dn = None"
    and "distinct (map fst (create_attrs attrs))" "map_of (create_attrs attrs) \<subseteq>\<^sub>m a"
  shows "provisions selected writeback (Create_account attrs None) d (d(dn \<mapsto> a))"
    and "provisions selected writeback (Create_account attrs (Some p)) d
      (d(dn \<mapsto> a(''unicodePwd'' \<mapsto> [encode_password p])))"
proof -
  have get: "map_of (create_attrs attrs) k = Some vs \<Longrightarrow> a k = Some vs" for k vs
    using assms(4) by (metis domI map_le_def)
  have uac: "a ''userAccountControl'' = Some [''514'']"
    using get create_attrs_values(1) [OF assms(3)] by (simp add: UAC_DISABLED_def)
  have other: "a k = Some [v]" if "(k, v) \<in> set attrs" "v \<noteq> []" "k \<noteq> ''distinguishedName''" for k v
    using get [OF create_attrs_values(2) [OF assms(3) that]] .
  show "provisions selected writeback (Create_account attrs None) d (d(dn \<mapsto> a))"
    using assms(1,2) uac other by (intro provisions.created) blast+
  show "provisions selected writeback (Create_account attrs (Some p)) d
      (d(dn \<mapsto> a(''unicodePwd'' \<mapsto> [encode_password p])))"
  proof (rule provisions.created [where d = d and dn = dn, OF assms(1,2)])
    show "(a(''unicodePwd'' \<mapsto> [encode_password p])) ''userAccountControl'' = Some [''514'']"
      using uac by simp
    show "\<forall>(k, v) \<in> set attrs. v \<noteq> [] \<and> k \<notin> {''distinguishedName'', ''unicodePwd''} \<longrightarrow>
        (a(''unicodePwd'' \<mapsto> [encode_password p])) k = Some [v]"
      using other by (intro ballI case_prodI2) (metis fun_upd_other insertCI)
  qed simp
qed

lemma create_attempts:
  assumes "directory_laws I dir matches" "outage_laws I dir"
    and "create_account I lc attrs pw w = (Done (Err e), w')"
  shows "attempts selected writeback (Create_account attrs pw)
    (dir (lc_ldap lc) (w_ext w)) (dir (lc_ldap lc) (w_ext w'))"
proof (cases "map_of attrs ''distinguishedName''")
  case None
  with assms(3) have "w' = w" by (simp add: create_account_def retM_def)
  then show ?thesis by (simp add: attempts.unchanged)
next
  case (Some dn)
  with assms(3) have "tryM (add_entry I lc dn (create_attrs attrs)) (\<lambda>_. tryM (initial_password I lc dn pw) (\<lambda>_. retM (Ok dn))) w
      = (Done (Err e), w')" by (simp add: create_account_def)
  then obtain r w1 where ad: "add_entry I lc dn (create_attrs attrs) w = (Done r, w1)"
    and rest: "r = Err e \<and> w' = w1 \<or> r = Ok () \<and> initial_password I lc dn pw w1 = (Done (Err e), w')"
    by (elim tryM_DoneE) auto
  let ?d = "\<lambda>w. dir (lc_ldap lc) (w_ext w)"
  show ?thesis
  proof (cases "is_ok r")
    case False
    with rest add_any [OF assms(1,2) ad] have "?d w' = ?d w \<or> (\<exists>a. ?d w dn = None
        \<and> distinct (map fst (create_attrs attrs)) \<and> map_of (create_attrs attrs) \<subseteq>\<^sub>m a \<and> ?d w' = (?d w)(dn \<mapsto> a))"
      by auto
    then have "?d w' = ?d w \<or> provisions selected writeback (Create_account attrs None) (?d w) (?d w')"
      by (elim disjE exE conjE) (simp_all add: provisions_added(1) [OF Some])
    then show ?thesis by (cases pw) (metis attempts.intros)+
  next
    case True
    with rest have pwd: "initial_password I lc dn pw w1 = (Done (Err e), w')" by auto
    then obtain p where p: "pw = Some p" and set: "set_password I lc dn p w1 = (Done (Err e), w')"
      by (auto simp: initial_password_def split: bool.splits option.splits)
    from True add_any [OF assms(1,2) ad] obtain a where a: "?d w dn = None" "distinct (map fst (create_attrs attrs))"
      "map_of (create_attrs attrs) \<subseteq>\<^sub>m a" "?d w1 = (?d w)(dn \<mapsto> a)" by blast
    from modify_any [OF assms(1,2) set [unfolded set_password_def]] a(4)
    have "?d w' = (?d w)(dn \<mapsto> a) \<or> ?d w' = (?d w)(dn \<mapsto> a(''unicodePwd'' \<mapsto> [encode_password p]))"
      by (auto simp: set_attrs_def)
    then show ?thesis unfolding p
      using provisions_added [where selected = selected and writeback = writeback and d = "?d w", OF Some a(1-3)]
      by (metis attempts.unanswered attempts.without_password)
  qed
qed

text \<open>Failing to switch or update an account: nothing was changed, or its change was carried out.\<close>

lemma selected_then:
  assumes "directory_laws I dir matches" "outage_laws I dir"
    and "tryM (find_dn I lc em) f w = (Done r, w')"
  obtains "dir (lc_ldap lc) (w_ext w') = dir (lc_ldap lc) (w_ext w)" "\<not> is_ok r"
    | dn a w1 where "dir (lc_ldap lc) (w_ext w1) = dir (lc_ldap lc) (w_ext w)"
        "dir (lc_ldap lc) (w_ext w) dn = Some a"
        "matches Subtree_scope (lc_base_dn lc) (account_filter em) dn a" "f dn w1 = (Done r, w')"
  using assms(3)
proof (cases rule: tryM_DoneE)
  case (ok dn w1)
  from ok(1) obtain e es s where s: "if_ldap_search I (lc_ldap lc) (lc_base_dn lc) Subtree_scope (account_filter em)
      [''distinguishedName''] (w_ext w) = (Ok (e # es, s), w_ext w1)" "dn = se_dn e"
    by (rule find_dn_ok)
  from directory_search [OF assms(1) s(1)] s(2) ok(2) that(2) show ?thesis by auto
next
  case (err e)
  with find_any [OF assms(2)] that(1) show ?thesis by auto
qed

lemma uac_attempts:
  assumes "directory_laws I dir matches" "outage_laws I dir"
    and "set_uac I lc em (if on then ''512'' else ''514'') w = (Done (Err e), w')"
  shows "attempts (\<lambda>em. matches Subtree_scope (lc_base_dn lc) (account_filter em)) wb (Set_enabled em on)
    (dir (lc_ldap lc) (w_ext w)) (dir (lc_ldap lc) (w_ext w'))"
proof (cases rule: selected_then [OF assms(1,2) assms(3) [unfolded set_uac_def]])
  case 1
  then show ?thesis by (simp add: attempts.unchanged)
next
  case (2 dn a w1)
  then have "modify_entry I lc ''modify uac'' dn [Replace ''userAccountControl'' [if on then ''512'' else ''514'']] w1
      = (Done (Err e), w')" by (auto elim!: tryM_DoneE)
  from modify_any [OF assms(1,2) this] 2(1,2)
  have "dir (lc_ldap lc) (w_ext w') = dir (lc_ldap lc) (w_ext w)
    \<or> dir (lc_ldap lc) (w_ext w') = (dir (lc_ldap lc) (w_ext w))
        (dn \<mapsto> a(''userAccountControl'' \<mapsto> [if on then ''512'' else ''514'']))"
    by (auto simp: set_attrs_def)
  with provisions.switched [of "dir (lc_ldap lc) (w_ext w)" dn a
      "\<lambda>em. matches Subtree_scope (lc_base_dn lc) (account_filter em)" em wb on, OF 2(2,3)]
  show ?thesis by (metis attempts.intros(1,2))
qed

lemma update_attempts:
  assumes "directory_laws I dir matches" "outage_laws I dir" "bt_ok attrs"
    and "update_attributes I lc em attrs w = (Done (Err e), w')"
  shows "attempts (\<lambda>em. matches Subtree_scope (lc_base_dn lc) (account_filter em)) wb (Update_account em attrs)
    (dir (lc_ldap lc) (w_ext w)) (dir (lc_ldap lc) (w_ext w'))"
proof (cases rule: selected_then [OF assms(1,2) assms(4) [unfolded update_attributes_def]])
  case 1
  then show ?thesis by (simp add: attempts.unchanged)
next
  case (2 dn a w1)
  then have "modify_entry I lc ''modify'' dn (update_mods attrs) w1 = (Done (Err e), w')"
    by (auto elim!: tryM_DoneE split: if_splits)
  from modify_any [OF assms(1,2) this] 2(1,2)
  have "dir (lc_ldap lc) (w_ext w') = dir (lc_ldap lc) (w_ext w)
    \<or> dir (lc_ldap lc) (w_ext w') = (dir (lc_ldap lc) (w_ext w))(dn \<mapsto> foldl apply_mod a (update_mods attrs))"
    by (auto simp: set_attrs_def)
  moreover have "provisions (\<lambda>em. matches Subtree_scope (lc_base_dn lc) (account_filter em)) wb (Update_account em attrs)
    (dir (lc_ldap lc) (w_ext w)) ((dir (lc_ldap lc) (w_ext w))(dn \<mapsto> foldl apply_mod a (update_mods attrs)))"
    using 2(2,3) apply_update_mods [OF assms(3)] by (intro provisions.updated) blast+
  ultimately show ?thesis by (metis attempts.intros(1,2))
qed

text \<open>What the outcome of an operation says about the directory before and after it.\<close>

definition accounted :: "'x iface \<Rightarrow> ad_mode \<Rightarrow> (string \<Rightarrow> string \<Rightarrow> entry_attrs \<Rightarrow> bool) \<Rightarrow> bool
    \<Rightarrow> operation \<times> (agent_error, json) result \<Rightarrow> directory \<Rightarrow> directory \<Rightarrow> bool" where
  "accounted I am selected writeback out d d' \<longleftrightarrow>
     (case request_of I (am_cipher am) (fst out) of
        Err e \<Rightarrow> snd out = Err e \<and> d' = d
      | Ok q \<Rightarrow> if is_ok (snd out) then provisions selected writeback q d d' else attempts selected writeback q d d')"

lemma process_attempts:
  assumes "directory_laws I dir matches" "outage_laws I dir" "request_of I (am_cipher am) op = Ok q"
    and "process I am op lc w = (Done (Err e), w')"
  shows "attempts (\<lambda>em. matches Subtree_scope (lc_base_dn lc) (account_filter em)) (lc_password_writeback lc) q
    (dir (lc_ldap lc) (w_ext w)) (dir (lc_ldap lc) (w_ext w'))" (is ?goal)
proof -
  note type_cases = request_of_def process_def
  have same: "?goal" if "dir (lc_ldap lc) (w_ext w') = dir (lc_ldap lc) (w_ext w)"
    using that by (simp add: attempts.unchanged)
  consider "op_type op = ''CREATE_ACCOUNT''" | "op_type op = ''ENABLE_ACCOUNT''" | "op_type op = ''DISABLE_ACCOUNT''"
    | "op_type op = ''UPDATE_ATTRIBUTES''" | "op_type op = ''TEST_CONNECTION''" | "op_type op = ''SYNC_USERS''"
    using assms(3) by (auto simp: request_of_def split: if_splits)
  then show ?goal
  proof cases
    case 1
    with assms(3) obtain attrs pw where q: "q = Create_account attrs pw"
      "parse_attrs I (op_attributes_json op) = Ok attrs" "given_password I (am_cipher am) op = Ok pw"
      by (auto simp: request_of_def bind_res_Ok)
    with 1 assms(4) have "tryM (create_account I lc attrs pw) (\<lambda>dn. retM (Ok (dn_result dn []))) w = (Done (Err e), w')"
      unfolding process_def do_create_def given_password_def by simp
    then have "create_account I lc attrs pw w = (Done (Err e), w')" by (auto elim!: tryM_DoneE)
    then show ?goal unfolding q(1) by (rule create_attempts [OF assms(1,2)])
  next
    case 2
    with assms(3,4) obtain em where "q = Set_enabled em True" "enable_account I lc em w = (Done (Err e), w')"
      by (auto simp: type_cases bind_res_Ok do_enable_def elim!: tryM_DoneE)
    with uac_attempts [OF assms(1,2), of lc em True w e w'] show ?goal
      by (simp add: enable_account_def UAC_ENABLED_def)
  next
    case 3
    with assms(3,4) obtain em where "q = Set_enabled em False" "disable_account I lc em w = (Done (Err e), w')"
      by (auto simp: type_cases bind_res_Ok do_disable_def elim!: tryM_DoneE)
    with uac_attempts [OF assms(1,2), of lc em False w e w'] show ?goal
      by (simp add: disable_account_def UAC_DISABLED_def)
  next
    case 4
    with assms(3,4) obtain em attrs where "q = Update_account em attrs"
      "parse_attrs I (op_attributes_json op) = Ok attrs" "update_attributes I lc em attrs w = (Done (Err e), w')"
      by (auto simp: type_cases bind_res_Ok do_update_def elim!: tryM_DoneE)
    with update_attempts [OF assms(1,2) parse_attrs_sorted] show ?goal by simp
  next
    case 5
    with assms(4) have "test_base I lc w = (Done (Err e), w')"
      by (auto simp: type_cases do_test_def elim!: tryM_DoneE)
    then show ?goal unfolding test_base_def
      by (intro same) (auto elim!: tryM_DoneE dest: search_any [OF assms(2)] simp del: append.simps)
  next
    case 6
    with assms(3,4) obtain base flt where "search_users I lc base flt w = (Done (Err e), w')"
      by (auto simp: type_cases bind_res_Ok do_sync_users_def search_base_def Let_def elim!: tryM_DoneE)
    then show ?goal unfolding search_users_def
      by (intro same) (auto elim!: tryM_DoneE dest: search_any [OF assms(2)] simp del: append.simps)
  qed
qed

lemma process_accounted:
  assumes "directory_laws I dir matches" "outage_laws I dir" "process I am op lc w = (Done r, w')"
  shows "accounted I am (\<lambda>em. matches Subtree_scope (lc_base_dn lc) (account_filter em)) (lc_password_writeback lc)
    (op, r) (dir (lc_ldap lc) (w_ext w)) (dir (lc_ldap lc) (w_ext w'))"
proof (cases "request_of I (am_cipher am) op")
  case (Err e)
  with assms(3) process_refuses [OF Err, of lc w] show ?thesis by (simp add: accounted_def)
next
  case (Ok q)
  show ?thesis
  proof (cases r)
    case r: (Ok d)
    with process_provisions [OF assms(1) Ok] assms(3) Ok show ?thesis by (simp add: accounted_def)
  next
    case r: (Err e)
    with process_attempts [OF assms(1,2) Ok] assms(3) Ok show ?thesis by (simp add: accounted_def)
  qed
qed

section \<open>A whole pass\<close>

fun all_accounted :: "'x iface \<Rightarrow> ad_mode \<Rightarrow> (string \<Rightarrow> string \<Rightarrow> entry_attrs \<Rightarrow> bool) \<Rightarrow> bool
    \<Rightarrow> (operation \<times> (agent_error, json) result) list \<Rightarrow> directory \<Rightarrow> directory \<Rightarrow> bool" where
  "all_accounted I am selected writeback [] d d' = (d' = d)"
| "all_accounted I am selected writeback (out # outs) d d' =
     (\<exists>d1. accounted I am selected writeback out d d1 \<and> all_accounted I am selected writeback outs d1 d')"

lemma audit_append_ext:
  assumes "audit_append I ev dt s = (r, t)"
  shows "w_ext (snd t) = snd (if_now I (w_ext (snd s)))"
proof -
  have "w_ext (snd (snd (audit_append I ev dt s))) = snd (if_now I (w_ext (snd s)))"
    by (cases s; auto simp: append_steps Let_def fs_append_def split: option.splits)
  with assms show ?thesis by simp
qed

lemma complete_ext:
  assumes "complete I sc oid ok res err w = (Done r, w')"
  shows "w_ext w' = snd (if_http I (sc_http sc) (complete_request sc oid ok res err) (w_ext w))"
  using assms unfolding complete_def
  by (rule tryM_DoneE) (auto simp: send_or_def send_def elim!: request_Done split: if_splits)

lemma settle_keeps_dir:
  assumes "bystander_laws I dir" "settle I am op r c s = (Done (Ok c'), t)"
  shows "dir h (w_ext (snd t)) = dir h (w_ext (snd s))"
proof -
  obtain ok res err a s1 ev dt b where
    c: "onSnd (complete I (am_server am) (op_id op) ok res err) s = (Done a, s1)"
    and l: "audit_append I ev dt s1 = (Done (Ok b), t)"
    using assms(2) unfolding settle_def by (cases r) (auto elim!: seqM_DoneE tryM_OkE)
  have "complete I (am_server am) (op_id op) ok res err (snd s) = (Done a, snd s1)"
    using c by (simp add: onSnd_Done_iff)
  from complete_ext [OF this] audit_append_ext [OF l] assms(1) show ?thesis
    by (simp add: bystander_laws_def)
qed

lemma handled_accounted:
  assumes "directory_laws I dir matches" "outage_laws I dir" "bystander_laws I dir"
    and "handled I am lc conns w outs w'" "list_all (\<lambda>op. op_forest_context_json op = None) (map fst outs)"
  shows "all_accounted I am (\<lambda>em. matches Subtree_scope (lc_base_dn lc) (account_filter em)) (lc_password_writeback lc)
    outs (dir (lc_ldap lc) (w_ext w)) (dir (lc_ldap lc) (w_ext w'))"
  using assms(4,5)
proof (induction outs arbitrary: conns w)
  case Nil
  then show ?case by simp
next
  case (Cons out outs)
  obtain op r where out: "out = (op, r)" by (cases out)
  from Cons.prems(1) obtain conns' v al c al' c' u where
    route: "route_and_process I am op lc conns w = (Done (r, conns'), v)"
    and settle: "settle I am op r c (al, v) = (Done (Ok c'), (al', u))"
    and rest: "handled I am lc conns' u outs w'" unfolding out handled.simps by blast
  have "op_forest_context_json op = None" "list_all (\<lambda>op. op_forest_context_json op = None) (map fst outs)"
    using Cons.prems(2) by (simp_all add: out)
  from route [unfolded route_default [OF this(1)] with_conns_def]
  have "process I am op lc w = (Done r, v)" by (auto elim!: seqM_DoneE)
  from process_accounted [OF assms(1,2) this] settle_keeps_dir [OF assms(3) settle]
    Cons.IH [OF rest \<open>list_all _ (map fst outs)\<close>]
  show ?case unfolding out all_accounted.simps by auto
qed

lemma unbind_all_dir:
  assumes "bystander_laws I dir" "unbind_all I lcs w = (Done (), w')"
  shows "dir h (w_ext w') = dir h (w_ext w)"
  using assms(2)
proof (induction lcs arbitrary: w)
  case (Cons lc lcs)
  then obtain w1 where u: "unbind I lc w = (Done (), w1)" and rest: "unbind_all I lcs w1 = (Done (), w')"
    by (auto elim!: seqM_DoneE)
  from u have "w_ext w1 = snd (if_ldap_unbind I (lc_ldap lc) (w_ext w))"
    unfolding unbind_def by (auto elim!: seqM_DoneE await_DoneE)
  with Cons.IH [OF rest] assms(1) show ?case by (simp add: bystander_laws_def)
qed simp

lemma poll_ext:
  assumes "poll_operations I sc limit w = (Done r, w')"
  shows "w_ext w' = snd (if_http I (sc_http sc) (poll_request sc limit) (w_ext w))"
proof -
  have pause: "pause u = (Done (), u') \<Longrightarrow> w_ext u' = w_ext u" for u u' :: "'a world"
    by (auto simp: pause_def split: option.splits nat.splits)
  show ?thesis
    using assms unfolding poll_operations_def
    by (rule tryM_DoneE)
      (auto simp: send_or_def send_def json_body_def dest!: pause elim!: request_Done seqM_DoneE await_DoneE split: if_splits)
qed

lemma connected:
  assumes "ldap_connect I url bd pw base v kerb pwb w = (Done (Ok lc), w1)"
  shows "lc_base_dn lc = base \<and> lc_password_writeback lc = pwb"
  using assms unfolding ldap_connect_def by (auto elim!: tryM_OkE)

text \<open>
  C3. The audit log accounts for the directory. After a pass that completed, the records it added are
  the outcomes of its operations, and the directory (as the agent's connection sees it, and with
  nobody else writing to it) is the one it connected to, changed operation by operation as the
  outcomes say: not at all where the operation could not be read, as the request asks where it was
  recorded as carried out, and where it was recorded as failed at most by what the request asks or by
  an account without its password. This is for a batch whose operations are all for the agent's own
  directory, not for other forests.
\<close>

theorem log_accounts_for_directory:
  assumes "directory_laws I dir matches" "outage_laws I dir" "bystander_laws I dir"
    and "ad_run_once I am (al, w) = (Done (Ok c), (al', w'))" "w_quota w = None" "log_holds I al w rs"
  shows "\<exists>pw lc w1 w2 outs ss. ldap_connect I (ad_url (am_ad am)) (ad_bind_dn (am_ad am)) pw (ad_base_dn (am_ad am))
        (am_verify_tls am) (ad_use_kerberos (am_ad am)) (ad_password_writeback (am_ad am)) w = (Done (Ok lc), w1)
    \<and> poll_operations I (am_server am) (am_batch am) w1 = (Done (Ok (map fst outs)), w2)
    \<and> log_holds I al' w' (rs @ ss) \<and> map (\<lambda>r. (ar_event r, ar_detail r)) ss = map outcome_event outs
    \<and> (list_all (\<lambda>op. op_forest_context_json op = None) (map fst outs) \<longrightarrow>
        all_accounted I am (\<lambda>em. matches Subtree_scope (ad_base_dn (am_ad am)) (account_filter em))
          (ad_password_writeback (am_ad am)) outs (dir (lc_ldap lc) (w_ext w1)) (dir (lc_ldap lc) (w_ext w')))"
proof -
  have "w_quota (snd (al, w)) = None" using assms(5) by simp
  from ad_run_adds [OF assms(4) this, unfolded snd_conv] obtain pw lc w1 ops w2 outs w3 lcs where
    conn: "ldap_connect I (ad_url (am_ad am)) (ad_bind_dn (am_ad am)) pw (ad_base_dn (am_ad am)) (am_verify_tls am)
       (ad_use_kerberos (am_ad am)) (ad_password_writeback (am_ad am)) w = (Done (Ok lc), w1)"
    and "poll_operations I (am_server am) (am_batch am) w1 = (Done (Ok ops), w2)" "map fst outs = ops"
    and hd: "handled I am lc [] w2 outs w3" and unb: "unbind_all I lcs w3 = (Done (), w')"
    and ad: "adds I (al, w) (map outcome_event outs) (map (outcome_request I (am_server am)) outs) (al', w')"
    by blast
  then have poll: "poll_operations I (am_server am) (am_batch am) w1 = (Done (Ok (map fst outs)), w2)" by simp
  have "dir h (w_ext w2) = dir h (w_ext w1)" for h
    using poll_ext [OF poll] assms(3) by (simp add: bystander_laws_def)
  moreover have "dir h (w_ext w') = dir h (w_ext w3)" for h
    by (rule unbind_all_dir [OF assms(3) unb])
  ultimately have "all_accounted I am (\<lambda>em. matches Subtree_scope (ad_base_dn (am_ad am)) (account_filter em))
      (ad_password_writeback (am_ad am)) outs (dir (lc_ldap lc) (w_ext w1)) (dir (lc_ldap lc) (w_ext w'))"
    if "list_all (\<lambda>op. op_forest_context_json op = None) (map fst outs)"
    using handled_accounted [OF assms(1-3) hd that] connected [OF conn] by simp
  moreover from ad assms(6) obtain ss where "log_holds I al' w' (rs @ ss)"
    "map (\<lambda>r. (ar_event r, ar_detail r)) ss = map outcome_event outs" by (auto simp: adds_def)
  ultimately show ?thesis using conn poll by blast
qed

lemma sample_environment:
  "directory_laws sample_broker_iface (\<lambda>h. map_of) mail_matches" "outage_laws sample_broker_iface (\<lambda>h. map_of)"
  "bystander_laws sample_broker_iface (\<lambda>h. map_of)"
proof -
  show "directory_laws sample_broker_iface (\<lambda>h. map_of) mail_matches"
    using sample_directory
    by (simp add: directory_laws_def add_law_def modify_law_def search_law_def sample_broker_iface_def)
  show "outage_laws sample_broker_iface (\<lambda>h. map_of)"
    by (auto simp: outage_laws_def sample_broker_iface_def sample_dir_iface_def dir_add_def dir_modify_def
        dir_search_def split: if_splits)
  show "bystander_laws sample_broker_iface (\<lambda>h. map_of)"
    by (simp add: bystander_laws_def sample_broker_iface_def sample_dir_iface_def base_iface_def)
qed

theorem log_accounts_for_directory_witness:
  "\<exists>c al' w' outs ss w1. ad_run_once sample_broker_iface sample_mode (fresh_log ''log'', world_on []) = (Done (Ok c), (al', w'))
     \<and> map fst outs = [noop]
     \<and> log_holds sample_broker_iface al' w' ss \<and> map (\<lambda>r. (ar_event r, ar_detail r)) ss = map outcome_event outs
     \<and> all_accounted sample_broker_iface sample_mode
         (\<lambda>em. mail_matches Subtree_scope ''DC=corp'' (account_filter em)) True outs (map_of (w_ext (w1 :: sample_dir world))) (map_of (w_ext w'))"
proof -
  obtain c al' w' where run:
    "ad_run_once sample_broker_iface sample_mode (fresh_log ''log'', world_on []) = (Done (Ok c), (al', w'))"
    using ad_pass_completes [OF sample_start sample_bind_password] sample_pass_steps
    by (metis surj_pair)
  have quota: "w_quota (world_on ([] :: sample_dir)) = None" by (simp add: world_on_def)
  have holds: "log_holds sample_broker_iface (fresh_log ''log'') (world_on []) []"
    by (simp add: log_holds_def fresh_log_def world_on_def)
  have am: "ad_base_dn (am_ad sample_mode) = ''DC=corp''" "ad_password_writeback (am_ad sample_mode) = True"
    "am_server sample_mode = sample_client" by (simp_all add: sample_mode_def)
  from log_accounts_for_directory [OF sample_environment run quota holds, unfolded am append_Nil]
  obtain w1 w2 outs ss where o: "poll_operations sample_broker_iface sample_client (am_batch sample_mode) w1
      = (Done (Ok (map fst outs)), w2)" "log_holds sample_broker_iface al' w' ss"
    "map (\<lambda>r. (ar_event r, ar_detail r)) ss = map outcome_event outs"
    and acc: "list_all (\<lambda>op. op_forest_context_json op = None) (map fst outs) \<longrightarrow>
      all_accounted sample_broker_iface sample_mode (\<lambda>em. mail_matches Subtree_scope ''DC=corp'' (account_filter em))
        True outs (map_of (w_ext w1)) (map_of (w_ext w'))"
    by (elim exE conjE) (rule that)
  from sample_poll_only [OF o(1)] have "map fst outs = [noop]" .
  moreover from this have "list_all (\<lambda>op. op_forest_context_json op = None) (map fst outs)" by (simp add: noop_def)
  ultimately show ?thesis using run o(2,3) acc by (intro exI [of _ c] exI [of _ al'] exI [of _ w'] exI [of _ outs] exI [of _ ss] exI [of _ w1]) simp
qed

end
