(* ===== verification/Secrecy.thy ===== *)
theory Secrecy
  imports Provisioning
begin

text \<open>
  Where the passwords of new accounts go: two drains of the same batch that differ only in these
  passwords are compared, step by step. They can be told apart by what is written to the directory's
  \<open>unicodePwd\<close> and by nothing else: the log, the requests to the broker, the results and the counters
  are the same. This is noninterference in the sense of two runs related by what an observer sees.
\<close>

section \<open>Two runs of an action\<close>

text \<open>\<open>alike R m m'\<close>: from related states the two actions end the same way, in related states.\<close>

definition alike :: "('s \<Rightarrow> 's \<Rightarrow> bool) \<Rightarrow> ('s, 'a) act \<Rightarrow> ('s, 'a) act \<Rightarrow> bool" where
  "alike R m m' \<longleftrightarrow> (\<forall>s s'. R s s' \<longrightarrow> fst (m s) = fst (m' s') \<and> R (snd (m s)) (snd (m' s')))"

named_theorems alike_rules \<open>rules for two runs\<close>

lemma alikeD: "alike R m m' \<Longrightarrow> R s s' \<Longrightarrow> m s = (r, t) \<Longrightarrow> \<exists>t'. m' s' = (r, t') \<and> R t t'"
  unfolding alike_def by (metis fst_conv snd_conv prod.collapse)

lemma alike_basic [alike_rules]:
  "alike R (retM a) (retM a)" "alike R (liftM r) (liftM r)" "alike R (panicM p) (panicM p)"
  by (simp_all add: alike_def retM_def liftM_def panicM_def)

lemma alike_seqM [alike_rules]:
  assumes "alike R m m'" "\<And>a. alike R (f a) (f' a)"
  shows "alike R (seqM m f) (seqM m' f')"
  unfolding alike_def
proof (intro allI impI)
  fix s s' assume r: "R s s'"
  obtain x t where m: "m s = (x, t)" by fastforce
  with alikeD [OF assms(1) r] obtain t' where m': "m' s' = (x, t')" "R t t'" by blast
  then show "fst (seqM m f s) = fst (seqM m' f' s') \<and> R (snd (seqM m f s)) (snd (seqM m' f' s'))"
    using assms(2) m by (cases x) (simp_all add: seqM_def alike_def)
qed

lemma alike_tryM [alike_rules]:
  "alike R m m' \<Longrightarrow> (\<And>a. alike R (f a) (f' a)) \<Longrightarrow> alike R (tryM m f) (tryM m' f')"
  unfolding tryM_def by (intro alike_seqM) (auto intro: alike_basic split: result.split)

definition on_pair :: "('s \<Rightarrow> 's \<Rightarrow> bool) \<Rightarrow> 'a \<times> 's \<Rightarrow> 'a \<times> 's \<Rightarrow> bool" where
  "on_pair R s s' \<longleftrightarrow> fst s = fst s' \<and> R (snd s) (snd s')"

lemma alike_onSnd [alike_rules]: "alike R m m' \<Longrightarrow> alike (on_pair R) (onSnd m) (onSnd m')"
  by (simp add: alike_def on_pair_def onSnd_def case_prod_beta)

section \<open>The observer\<close>

text \<open>The same call, or two writes of a password to the same entry.\<close>

inductive same_call :: "effect \<Rightarrow> effect \<Rightarrow> bool" where
  same: "same_call e e"
| other_password: "same_call (ELdapModify h dn [Replace ''unicodePwd'' [v]]) (ELdapModify h dn [Replace ''unicodePwd'' [v']])"

text \<open>
  Worlds that look the same to an observer who does not see passwords. \<open>S\<close> relates the two states of
  the other systems.
\<close>

definition twin :: "('x \<Rightarrow> 'x \<Rightarrow> bool) \<Rightarrow> 'x world \<Rightarrow> 'x world \<Rightarrow> bool" where
  "twin S w w' \<longleftrightarrow> w_files w = w_files w' \<and> w_noread w = w_noread w' \<and> w_nowrite w = w_nowrite w'
     \<and> w_quota w = w_quota w' \<and> w_env w = w_env w' \<and> w_stop w = w_stop w' \<and> w_late w = w_late w'
     \<and> list_all2 same_call (w_trace w) (w_trace w') \<and> S (w_ext w) (w_ext w')"

definition masked :: "('x \<Rightarrow> 'x \<Rightarrow> bool) \<Rightarrow> ('x \<Rightarrow> 'a \<times> 'x) \<Rightarrow> ('x \<Rightarrow> 'a \<times> 'x) \<Rightarrow> bool" where
  "masked S f f' \<longleftrightarrow> (\<forall>x y. S x y \<longrightarrow> fst (f x) = fst (f' y) \<and> S (snd (f x)) (snd (f' y)))"

lemma maskedD: "masked S f f' \<Longrightarrow> S x y \<Longrightarrow> f x = (a, x') \<Longrightarrow> f' y = (b, y') \<Longrightarrow> a = b \<and> S x' y'"
  unfolding masked_def by (metis fst_conv snd_conv)

lemma twin_perform:
  assumes "masked S f f'" "same_call e e'" "twin S w w'"
  shows "fst (perform e f w) = fst (perform e' f' w') \<and> twin S (snd (perform e f w)) (snd (perform e' f' w'))"
  using assms by (simp add: twin_def perform_def masked_def list_all2_appendI case_prod_beta)

lemma await_split:
  "await e f w = (if w_stop w = Some 0 then (Dropped, if w_late w then snd (perform e f w) else w)
     else (Done (fst (perform e f w)),
       (snd (perform e f w))\<lparr>w_stop := map_option (\<lambda>n. n - 1) (w_stop w)\<rparr>))"
proof -
  have "w_stop (snd (perform e f w)) = w_stop w" by (simp add: perform_def case_prod_beta)
  then show ?thesis by (cases "w_stop w") (auto simp: await_def case_prod_beta split: nat.split)
qed

lemma alike_await:
  assumes "masked S f f'" "same_call e e'"
  shows "alike (twin S) (await e f) (await e' f')"
  unfolding alike_def
proof (intro allI impI)
  fix w w' assume t: "twin S w w'"
  from twin_perform [OF assms t] obtain a v v' where
    p: "fst (perform e f w) = a" "fst (perform e' f' w') = a" "snd (perform e f w) = v"
      "snd (perform e' f' w') = v'" and v: "twin S v v'" by metis
  have "w_stop w = w_stop w'" "w_late w = w_late w'" using t by (simp_all add: twin_def)
  moreover have "twin S (v\<lparr>w_stop := k\<rparr>) (v'\<lparr>w_stop := k\<rparr>)" for k using v by (simp add: twin_def)
  ultimately show "fst (await e f w) = fst (await e' f' w') \<and> twin S (snd (await e f w)) (snd (await e' f' w'))"
    using v t by (simp add: await_split p)
qed

lemma alike_pause [alike_rules]: "alike (twin S) pause pause"
  by (auto simp: alike_def twin_def pause_def split: option.split nat.split)

lemma alike_callM: "masked S f f' \<Longrightarrow> alike (twin S) (callM f) (callM f')"
  by (auto simp: alike_def twin_def callM_def split: prod.split dest: maskedD)

text \<open>
  The other systems do not tell passwords apart: every call from two states that differ in passwords
  only has the same answer and keeps them so; \<open>no_difference I S v v'\<close> says it of the writing of two
  given values to \<open>unicodePwd\<close> (the directory accepts both or refuses both).
\<close>

definition blind :: "'x iface \<Rightarrow> ('x \<Rightarrow> 'x \<Rightarrow> bool) \<Rightarrow> bool" where
  "blind I S \<longleftrightarrow> (\<forall>c r. masked S (if_http I c r) (if_http I c r)) \<and> masked S (if_now I) (if_now I)
     \<and> (\<forall>t u. masked S (if_ldap_connect I t u) (if_ldap_connect I t u))
     \<and> (\<forall>h d p. masked S (if_ldap_bind I h d p) (if_ldap_bind I h d p))
     \<and> (\<forall>h n. masked S (if_ldap_gssapi I h n) (if_ldap_gssapi I h n))
     \<and> (\<forall>h d atts. masked S (if_ldap_add I h d atts) (if_ldap_add I h d atts))
     \<and> (\<forall>h d ms. masked S (if_ldap_modify I h d ms) (if_ldap_modify I h d ms))
     \<and> (\<forall>h b sc f atts. masked S (if_ldap_search I h b sc f atts) (if_ldap_search I h b sc f atts))
     \<and> (\<forall>h. masked S (if_ldap_unbind I h) (if_ldap_unbind I h))"

definition no_difference :: "'x iface \<Rightarrow> ('x \<Rightarrow> 'x \<Rightarrow> bool) \<Rightarrow> string \<Rightarrow> string \<Rightarrow> bool" where
  "no_difference I S v v' \<longleftrightarrow> (\<forall>h dn. masked S (if_ldap_modify I h dn [Replace ''unicodePwd'' [v]])
     (if_ldap_modify I h dn [Replace ''unicodePwd'' [v']]))"

lemma alike_calls [alike_rules]:
  assumes "blind I S"
  shows "alike (twin S) (await e (if_http I c r)) (await e (if_http I c r))"
    "alike (twin S) (callM (if_now I)) (callM (if_now I))"
    "alike (twin S) (await e (if_ldap_connect I t u)) (await e (if_ldap_connect I t u))"
    "alike (twin S) (await e (if_ldap_bind I h d p)) (await e (if_ldap_bind I h d p))"
    "alike (twin S) (await e (if_ldap_gssapi I h n)) (await e (if_ldap_gssapi I h n))"
    "alike (twin S) (await e (if_ldap_add I h d atts)) (await e (if_ldap_add I h d atts))"
    "alike (twin S) (await e (if_ldap_modify I h d ms)) (await e (if_ldap_modify I h d ms))"
    "alike (twin S) (await e (if_ldap_search I h b sc f ss)) (await e (if_ldap_search I h b sc f ss))"
    "alike (twin S) (await e (if_ldap_unbind I h)) (await e (if_ldap_unbind I h))"
  using assms unfolding blind_def by (auto intro!: alike_await alike_callM same_call.same)

section \<open>The agent's actions\<close>

lemma alike_binds [alike_rules]:
  assumes "blind I S"
  shows "alike (twin S) (ldap_open I n url) (ldap_open I n url)"
    "alike (twin S) (simple_bind I h what dn pw) (simple_bind I h what dn pw)"
    "alike (twin S) (kerberos_bind I h url) (kerberos_bind I h url)"
    "alike (twin S) (modify_entry I lc what dn ms) (modify_entry I lc what dn ms)"
    "alike (twin S) (add_entry I lc dn atts) (add_entry I lc dn atts)"
    "alike (twin S) (find_dn I lc em) (find_dn I lc em)"
    "alike (twin S) (unbind I lc) (unbind I lc)"
  unfolding ldap_open_def simple_bind_def kerberos_bind_def modify_entry_def add_entry_def find_dn_def unbind_def
  using assms by (auto intro!: alike_rules)

lemma alike_try_hosts [alike_rules]:
  "blind I S \<Longrightarrow> alike (twin S) (try_hosts I ctx base c v le hs) (try_hosts I ctx base c v le hs)"
  by (induction hs arbitrary: le) (auto intro!: alike_rules simp: try_host_def split: result.split prod.split)

lemma alike_accounts [alike_rules]:
  assumes "blind I S"
  shows "alike (twin S) (connect_forest I ctx target c v) (connect_forest I ctx target c v)"
    "alike (twin S) (enable_account I lc em) (enable_account I lc em)"
    "alike (twin S) (disable_account I lc em) (disable_account I lc em)"
    "alike (twin S) (update_attributes I lc em attrs) (update_attributes I lc em attrs)"
    "alike (twin S) (test_base I lc) (test_base I lc)"
    "alike (twin S) (search_users I lc base flt) (search_users I lc base flt)"
  unfolding connect_forest_def enable_account_def disable_account_def set_uac_def update_attributes_def
    test_base_def search_users_def
  using assms by (auto intro!: alike_rules)

text \<open>The one place where the passwords are used.\<close>

lemma alike_create_account:
  assumes "blind I S" "no_difference I S (encode_password p) (encode_password p')"
  shows "alike (twin S) (create_account I lc attrs (Some p)) (create_account I lc attrs (Some p'))"
proof -
  have "alike (twin S) (set_password I lc dn p) (set_password I lc dn p')" for dn
    unfolding set_password_def modify_entry_def
    by (intro alike_seqM alike_await alike_basic same_call.other_password)
      (use assms(2) in \<open>auto simp: no_difference_def\<close>)
  then have "alike (twin S) (initial_password I lc dn (Some p)) (initial_password I lc dn (Some p'))" for dn
    by (auto simp: initial_password_def intro: alike_basic split: bool.split)
  with assms(1) show ?thesis
    unfolding create_account_def by (auto intro!: alike_rules)
qed

text \<open>Two operations that differ at most in a password that can be decrypted.\<close>

definition twin_ops :: "'x iface \<Rightarrow> ('x \<Rightarrow> 'x \<Rightarrow> bool) \<Rightarrow> ad_mode \<Rightarrow> operation \<Rightarrow> operation \<Rightarrow> bool" where
  "twin_ops I S am op op' \<longleftrightarrow> op' = op \<or>
     (\<exists>enc enc' p p'. op_encrypted_password op = Some enc \<and> op' = op\<lparr>op_encrypted_password := Some enc'\<rparr>
        \<and> decrypt_serialized I (am_cipher am) enc = Ok p \<and> decrypt_serialized I (am_cipher am) enc' = Ok p'
        \<and> no_difference I S (encode_password p) (encode_password p'))"

lemma twin_ops_fields:
  assumes "twin_ops I S am op op'"
  shows "op_id op' = op_id op" "op_type op' = op_type op" "op_user_email op' = op_user_email op"
    "op_attributes_json op' = op_attributes_json op" "op_target_base_dn op' = op_target_base_dn op"
    "op_forest_context_json op' = op_forest_context_json op"
  using assms by (auto simp: twin_ops_def)

lemma alike_create:
  assumes "blind I S" "twin_ops I S am op op'"
  shows "alike (twin S) (do_create I am op lc) (do_create I am op' lc)"
proof -
  have same: "alike (twin S) (create_account I lc attrs pw) (create_account I lc attrs pw)" for attrs pw
  proof (cases pw)
    case (Some p)
    have "no_difference I S (encode_password p) (encode_password p)"
      using assms(1) by (auto simp: blind_def no_difference_def)
    with alike_create_account [OF assms(1)] Some show ?thesis by blast
  qed (use assms(1) in \<open>auto simp: create_account_def initial_password_def intro!: alike_rules split: bool.split\<close>)
  show ?thesis
  proof (cases "op' = op")
    case True
    with assms(1) same show ?thesis unfolding do_create_def by (auto intro!: alike_rules)
  next
    case False
    with assms(2) obtain enc enc' p p' where e: "op_encrypted_password op = Some enc"
      "op_encrypted_password op' = Some enc'" "decrypt_serialized I (am_cipher am) enc = Ok p"
      "decrypt_serialized I (am_cipher am) enc' = Ok p'"
      and n: "no_difference I S (encode_password p) (encode_password p')"
      by (auto simp: twin_ops_def)
    show ?thesis
      unfolding do_create_def e(1,2) option.case e(3,4) bind_res.simps twin_ops_fields [OF assms(2)] liftM_tryM
      by (intro alike_rules alike_create_account assms(1) n)
  qed
qed

lemma alike_process:
  assumes "blind I S" "twin_ops I S am op op'"
  shows "alike (twin S) (process I am op lc) (process I am op' lc)"
  unfolding process_def do_enable_def do_disable_def do_update_def do_test_def do_sync_users_def email_def
    twin_ops_fields [OF assms(2)] Let_def
  using assms by (auto intro!: alike_rules alike_create)

lemma alike_route:
  assumes "blind I S" "twin_ops I S am op op'"
  shows "alike (twin S) (route_and_process I am op lc conns) (route_and_process I am op' lc conns)"
  unfolding route_and_process_def on_forest_def with_conns_def twin_ops_fields [OF assms(2)]
  using assms by (auto intro!: alike_rules alike_process split: option.split result.split)

lemma alike_complete [alike_rules]:
  "blind I S \<Longrightarrow> alike (twin S) (complete I sc oid ok res err) (complete I sc oid ok res err)"
  unfolding complete_def send_or_def send_def by (auto intro!: alike_rules)

lemma fs_append_parts:
  "fst (fs_append p s (w\<lparr>w_trace := es, w_ext := x\<rparr>)) = fst (fs_append p s w)"
  "snd (fs_append p s (w\<lparr>w_trace := es, w_ext := x\<rparr>)) = (snd (fs_append p s w))\<lparr>w_trace := es, w_ext := x\<rparr>"
  "w_trace (snd (fs_append p s w)) = w_trace w" "w_ext (snd (fs_append p s w)) = w_ext w"
  by (simp_all add: fs_append_def Let_def split: option.split)

lemma twin_update:
  "twin S w w' \<longleftrightarrow> w' = w\<lparr>w_trace := w_trace w', w_ext := w_ext w'\<rparr>
     \<and> list_all2 same_call (w_trace w) (w_trace w') \<and> S (w_ext w) (w_ext w')"
  by (cases w, cases w') (auto simp: twin_def)

lemma alike_fs_append [alike_rules]: "alike (twin S) (fs_append p s) (fs_append p s)"
  unfolding alike_def
proof (intro allI impI)
  fix w w' assume "twin S w w'"
  then obtain es x where w': "w' = w\<lparr>w_trace := es, w_ext := x\<rparr>" and "list_all2 same_call (w_trace w) es"
    "S (w_ext w) x" by (metis twin_update)
  then show "fst (fs_append p s w) = fst (fs_append p s w') \<and> twin S (snd (fs_append p s w)) (snd (fs_append p s w'))"
    unfolding w' fs_append_parts(1,2) by (simp add: twin_def fs_append_parts(3,4))
qed

lemma alike_at_head:
  "(\<And>al. alike (on_pair R) (g al) (g' al)) \<Longrightarrow> alike (on_pair R) (\<lambda>s. g (fst s) s) (\<lambda>s. g' (fst s) s)"
  by (simp add: alike_def on_pair_def)

lemma alike_set_head [alike_rules]: "alike (on_pair R) (set_head r) (set_head r)"
  by (simp add: alike_def on_pair_def set_head_def)

lemma alike_append [alike_rules]:
  assumes "blind I S"
  shows "alike (on_pair (twin S)) (audit_append I ev dt) (audit_append I ev dt)"
proof -
  let ?g = "\<lambda>ts al. let r = next_record I al ts ev dt
     in tryM (onSnd (fs_append (al_path al) (if_json_str I (record_tree r) @ [NL])))
          (\<lambda>_. seqM (set_head r) (\<lambda>_. retM (Ok r)))"
  have "alike (on_pair (twin S)) (?g ts al) (?g ts al)" for ts al
    unfolding Let_def by (intro alike_rules)
  then have "alike (on_pair (twin S)) (\<lambda>s. ?g ts (fst s) s) (\<lambda>s. ?g ts (fst s) s)" for ts
    by (rule alike_at_head)
  then have "alike (on_pair (twin S)) (seqM (onSnd (callM (if_now I))) (\<lambda>ts s. ?g ts (fst s) s))
      (seqM (onSnd (callM (if_now I))) (\<lambda>ts s. ?g ts (fst s) s))"
    by (intro alike_seqM alike_onSnd alike_calls(2) assms)
  then show ?thesis by (simp only: audit_append_def Let_def)
qed

lemma alike_settle:
  "blind I S \<Longrightarrow> twin_ops I S am op op' \<Longrightarrow>
   alike (on_pair (twin S)) (settle I am op r c) (settle I am op' r c)"
  unfolding settle_def ok_event_def fail_event_def
  by (auto intro!: alike_rules simp: twin_ops_fields split: result.split)

lemma alike_drain:
  assumes "blind I S" "list_all2 (twin_ops I S am) ops ops'"
  shows "alike (on_pair (twin S)) (drain I am lc ops conns c) (drain I am lc ops' conns c)"
  using assms(2)
proof (induction ops ops' arbitrary: conns c rule: list_all2_induct)
  case Nil
  then show ?case by (simp add: alike_basic)
next
  case (Cons op ops op' ops')
  with assms(1) show ?case
    unfolding drain.simps by (auto intro!: alike_rules alike_route alike_settle split: prod.split)
qed

lemma same_call_posts: "list_all2 same_call es es' \<Longrightarrow> posts es' = posts es"
proof (induction rule: list_all2_induct)
  case (Cons e es e' es')
  then show ?case by (cases rule: same_call.cases) (cases e; simp)+
qed simp

text \<open>
  C6. The passwords of new accounts go to the directory and nowhere else. If two batches differ in
  the encrypted passwords of their operations only, and the other systems do not tell these apart
  (the directory accepts or refuses both), then draining them, from the same state and wherever a
  shutdown cuts it off, ends in the same way, with the same log, the same counters and the same
  calls, except for the value written to \<open>unicodePwd\<close>.
\<close>

theorem drain_hides_passwords:
  assumes "blind I S" "list_all2 (twin_ops I S am) ops ops'" "S (w_ext w) (w_ext w)"
  shows "\<exists>r al1 w1 w1'. drain I am lc ops conns c (al, w) = (r, (al1, w1))
    \<and> drain I am lc ops' conns c (al, w) = (r, (al1, w1'))
    \<and> w_files w1 = w_files w1' \<and> list_all2 same_call (w_trace w1) (w_trace w1') \<and> posts (w_trace w1) = posts (w_trace w1')"
proof -
  obtain r al1 w1 where d: "drain I am lc ops conns c (al, w) = (r, (al1, w1))" by (metis prod.exhaust)
  have "on_pair (twin S) (al, w) (al, w)"
    using assms(3) by (simp add: on_pair_def twin_def list_all2_refl same_call.same)
  from alikeD [OF alike_drain [OF assms(1,2)] this d] obtain t' where
    "drain I am lc ops' conns c (al, w) = (r, t')" "on_pair (twin S) (al1, w1) t'" by blast
  then obtain w1' where "drain I am lc ops' conns c (al, w) = (r, (al1, w1'))" "twin S w1 w1'"
    by (cases t') (auto simp: on_pair_def)
  with d same_call_posts show ?thesis by (auto simp: twin_def)
qed

section \<open>Two passwords\<close>

definition calm_iface :: "unit iface" where
  "calm_iface = base_iface\<lparr>if_ldap_add := (\<lambda>h dn atts x. (Ok (rc 0), x)), if_ldap_modify := (\<lambda>h dn ms x. (Ok (rc 0), x))\<rparr>"

lemma calm_encrypted:
  assumes "utf8_valid p"
  shows "\<exists>enc. decrypt_serialized calm_iface (am_cipher sample_mode) enc = Ok p"
proof -
  have "cipher_laws calm_iface" "fill_laws calm_iface"
    using sample_cipher_laws
    by (simp_all add: cipher_laws_def fill_laws_def calm_iface_def sample_iface_def base_iface_def)
  moreover obtain enc w where "encrypt_serialized calm_iface sample_cipher p sample_world = (Done (Ok enc), w)"
    by (simp add: encrypt_run calm_iface_def base_iface_def)
  moreover have "ci_key (am_cipher sample_mode) = ci_key sample_cipher" by (simp add: sample_mode_def)
  ultimately show ?thesis using decrypt_encrypted assms by blast
qed

theorem drain_hides_passwords_witness:
  "\<exists>enc enc' r al1 w1 w1'. decrypt_serialized calm_iface (am_cipher sample_mode) enc = Ok ''s3cret''
    \<and> decrypt_serialized calm_iface (am_cipher sample_mode) enc' = Ok ''hunter2''
    \<and> drain calm_iface sample_mode sample_conn [alice_op enc] [] no_counts (fresh_log ''log'', sample_world) = (r, (al1, w1))
    \<and> drain calm_iface sample_mode sample_conn [alice_op enc'] [] no_counts (fresh_log ''log'', sample_world) = (r, (al1, w1'))
    \<and> w_files w1 = w_files w1' \<and> posts (w_trace w1) = posts (w_trace w1')"
proof -
  have "utf8_valid ''s3cret''" "utf8_valid ''hunter2''" by (rule utf8_valid_ascii, simp add: byte_def)+
  then obtain enc enc' where enc: "decrypt_serialized calm_iface (am_cipher sample_mode) enc = Ok ''s3cret''"
    "decrypt_serialized calm_iface (am_cipher sample_mode) enc' = Ok ''hunter2''"
    using calm_encrypted by blast
  have blind: "blind calm_iface (=)" by (simp add: blind_def masked_def)
  have "no_difference calm_iface (=) (encode_password ''s3cret'') (encode_password ''hunter2'')"
    by (simp add: no_difference_def masked_def calm_iface_def)
  moreover have "alice_op enc' = (alice_op enc)\<lparr>op_encrypted_password := Some enc'\<rparr>"
    by (simp add: alice_op_def)
  ultimately have twins: "list_all2 (twin_ops calm_iface (=) sample_mode) [alice_op enc] [alice_op enc']"
    using enc alice_op_fields(2) by (auto simp: twin_ops_def)
  from drain_hides_passwords [OF blind twins refl] enc show ?thesis by blast
qed

end
