(* ===== verification/Spec2Isabelle.thy ===== *)
theory Spec2Isabelle
  imports Runner_Props Command_Props Provisioning_Pass Secrecy
begin

text \<open>
  A model of the NexusID sync agent (the Rust crate under \<open>src/\<close>) and the theorems that make it
  correct.

  \<^bold>\<open>The program.\<close> The agent is a service next to a directory or a database. In every round it
  fetches live settings from the broker, sends a heartbeat, runs one pass and sleeps. In mode
  \<open>ad\<close> a pass polls provisioning operations and carries them out in Active Directory (the default
  directory or a forest named by the operation); in mode \<open>db\<close> it pushes the rows of a table to a
  webhook and applies the changes of a change feed. Everything it does is recorded in a
  hash-chained log. Secrets of the configuration are references (\<open>env:\<close>) or encrypted (\<open>enc:\<close>).

  \<^bold>\<open>Theories and code.\<close> Definitions keep the names of the code.
  \<^item> \<open>Prelude\<close>, \<open>Rust_Str\<close>, \<open>Rust_Map\<close>, \<open>Json\<close>: Rust's \<open>Result\<close>, futures, \<open>str\<close> (a list of bytes), \<open>BTreeMap\<close>, and the trees of
    \<open>serde_json\<close> and \<open>toml\<close> with what \<open>serde\<close>'s derive attributes make of them.
  \<^item> \<open>World\<close>: \<open>src/error.rs\<close>; the interface \<open>iface\<close> to third-party and remote code; the machine
    \<open>world\<close> (files, environment, moment of the shutdown, history of calls). \<open>Sample\<close>: an instance.
  \<^item> \<open>Crypto\<close>: \<open>src/crypto.rs\<close>. \<open>Config\<close>: \<open>src/config.rs\<close>. \<open>Server\<close>: \<open>src/server.rs\<close>.
  \<^item> \<open>Audit_Log\<close>: \<open>src/audit.rs\<close>; \<open>Audit_Chain\<close> and \<open>Audit_Thms\<close>: its specification (a list of records
    that form a chain, \<open>log_holds\<close>) and theorems.
  \<^item> \<open>Ldap\<close>: \<open>src/connectors/ldap.rs\<close>; \<open>Directory\<close>: what its operations do to a directory.
  \<^item> \<open>Ad_Mode\<close>, \<open>Ad_Thms\<close>: \<open>src/modes/ad.rs\<close>. \<open>Db_Connector\<close>, \<open>Db_Mode\<close>: \<open>src/connectors/db.rs\<close>, \<open>src/modes/db.rs\<close>.
  \<^item> \<open>Provisioning\<close>, \<open>Provisioning_Pass\<close>: the provisioning queue as operations on an abstract directory,
    and the refinement of one operation and of a whole pass. \<open>Secrecy\<close>: two runs of a pass compared.
  \<^item> \<open>Log_Frame\<close>: the contract between the log, the calls to other systems and the modes.
  \<^item> \<open>Runner\<close>, \<open>Runner_Thms\<close>, \<open>Runner_Props\<close>: \<open>src/runner.rs\<close>.
  \<^item> \<open>Win_Service\<close>, \<open>Win_Process\<close>, \<open>Win_Stop\<close>: \<open>src/service.rs\<close>, its calls to the service manager, its
    process and how that ends.
  \<^item> \<open>Command_Line\<close>, \<open>Command_Props\<close>: \<open>src/main.rs\<close>, from the log directory to the exit code.

  \<^bold>\<open>State and interruption.\<close> An operation is an action on the world, or on the log's head and the
  world (a \<open>pass\<close>), or on the console and the world (\<open>cli\<close>). A call to another system is an
  \<open>await\<close>: it is added to \<open>w_trace\<close> and its answer comes from the interface. The shutdown signal
  arrives after any number of awaits (\<open>w_stop\<close>) or never; the await it meets is \<open>Dropped\<close>, with
  (\<open>w_late\<close>) or without effect at the other side, and the work with it, as \<open>tokio::select!\<close> drops
  the future. A theorem for every \<open>w_stop\<close> is therefore one for every point of interruption. The
  disk may be unwritable (\<open>w_nowrite\<close>) or full (\<open>w_quota\<close>). The Windows service has no such moment: its
  process ends with \<open>exit(0)\<close> while the runner is at work, which \<open>cut_run\<close> models with the same count
  of awaits (\<open>killed\<close> adds the files a worker leaves that is killed between two writes); its threads and the manager's controls, in any interleaving, are the steps of
  \<open>service_step\<close>, and \<open>reached\<close> relates the controls sent to the states they can lead to.

  \<^bold>\<open>Interfaces.\<close> \<open>btree_map\<close> (the map laws), \<open>frame\<close> and \<open>world_frame\<close> (a relation kept by every call),
  \<open>ldap_frame\<close>, \<open>sql_frame\<close> and \<open>pass_frame\<close> (by the connectors, and by a pass with its log) are
  locales. The modes and the loop are proved once to keep any such relation; the interpretations
  of \<open>pass_frame\<close> give that the log stays a chain (\<open>log\<close>), that the shutdown comes nearer (\<open>stop\<close>)
  and that only requests of one client are sent (\<open>client\<close>).

  \<^bold>\<open>What the lemmas show.\<close>
  \<^item> The log: appending refines adding a record to a chain; opening recovers the head; \<open>verify\<close>
    accepts exactly chains and reports the first break; a record vouches for all before it; and
    what it does not do (cut-off ends, rewritten histories, half-written lines).
  \<^item> Secrets: encryption, vault and configuration round trips; setup never keeps a raw secret; the
    passwords of new accounts show in nothing but the writes to the directory.
  \<^item> The directory: creation, enabling, disabling, updating, password encoding, failover; every
    operation refines its request (\<open>provisions\<close>), failed ones included (\<open>attempts\<close>), so that the records
    of a pass account for the directory's changes; the broker's password arrives unchanged.
  \<^item> A pass: each operation (row) is answered and recorded once and in order and counted once; no
    operation stops a pass.
  \<^item> The service: the log is a chain wherever the service stops; it stops exactly when told to, and
    then gracefully; a round's calls and their order; no panic on a validated configuration.
  \<^item> The Windows service: what it has reported in every reachable state, that its process ends after
    a stop order with a log that verifies, what the next start may do to that log, and that it does
    not notice a worker that has died.
  \<^item> The commands: the exit code of \<open>verify-log\<close>; wizard and flags have the same effect.

  \<^bold>\<open>Bounds and fuel.\<close> \<open>serve\<close> is a partial function, and that it returns (or does not) is proved. No
  other definition has fuel. Counters and sequence numbers are 64-bit words that wrap around as in
  a release build. The trees the log records are nested at most 126 deep, the parser's limit.

  \<^bold>\<open>Hypotheses.\<close> \<open>json_laws\<close>, \<open>cipher_laws\<close>, \<open>fill_laws\<close>, \<open>hash_laws\<close> and \<open>directory_laws\<close> state documented
  behaviour of \<open>serde_json\<close>, \<open>aes-gcm\<close>, \<open>base64\<close>, \<open>rand\<close>, \<open>hex\<close> and an LDAP server; \<open>outage_laws\<close> that a
  request without an answer was carried out or not, and \<open>bystander_laws\<close> that the broker and the clock
  do not write to the directory, and \<open>blind\<close> that the other systems' answers do not depend on which
  of two passwords the directory was given. Each holds of the instance of the witnesses. That SHA-256 has no collision is assumed only for the texts that are hashed.

  \<^bold>\<open>Not modelled.\<close> The text and the files of the log messages (\<open>tracing\<close>) and the choice of their
  filter; the parsing of arguments (\<open>clap\<close>); the wait for SIGTERM or Ctrl-C itself, which is the
  environment's choice of \<open>w_stop\<close>; creating the directories above a configuration file, whose result
  the code ignores; memory exhaustion; the tests (\<open>src/ad_e2e.rs\<close>, which needs a live directory, and
  the \<open>cfg(test)\<close> modules). A \<open>HashMap\<close> of connections is a list in order of insertion, as its
  iteration order is unspecified.
\<close>

end
